theory Spec2Isabelle
  imports Main
begin

section \<open>Data model\<close>

text \<open>
  Strings are lists of 8-bit characters. The source works on JavaScript strings; the
  model covers ASCII text, where one character is one UTF-16 code unit and
  \<open>charAt\<close>, \<open>length\<close> and \<open>substring\<close> coincide with the list operations.
\<close>

datatype WordInsertionMode = MATCH_CASE_REPLACE | IGNORE_CASE_REPLACE | APPEND

datatype CalloutProviderSource = COMPLETR | CALLOUT_MANAGER

record MyAutoCompletionSettings =
  autoTrigger :: bool
  minWordTriggerLength :: nat
  maxLookBackDistance :: nat
  characterRegex :: string
  insertSpaceAfterComplete :: bool
  wordInsertionMode :: WordInsertionMode
  autoFocus :: bool
  ignoreDiacriticsWhenFiltering :: bool
  insertPeriodAfterSpaces :: bool
  enableWordListProvider :: bool
  enableLatexProvider :: bool
  enableCalloutProvider :: bool
  enableFrontMatterProvider :: bool
  enableFileScannerProvider :: bool
  latexTriggerInCodeBlocks :: bool
  latexIgnoreCase :: bool
  fileScannerScanCurrent :: bool
  frontMatterTagAppendSuffix :: bool
  frontMatterIgnoreCase :: bool
  calloutProviderSource :: CalloutProviderSource

definition DEFAULT_SETTINGS :: MyAutoCompletionSettings where
  "DEFAULT_SETTINGS = \<lparr>
     autoTrigger = True,
     minWordTriggerLength = 2,
     maxLookBackDistance = 50,
     characterRegex = [CHR 0x5C, CHR ''w''],
     insertSpaceAfterComplete = True,
     wordInsertionMode = IGNORE_CASE_REPLACE,
     autoFocus = True,
     ignoreDiacriticsWhenFiltering = False,
     insertPeriodAfterSpaces = False,
     enableWordListProvider = True,
     enableLatexProvider = True,
     enableCalloutProvider = True,
     enableFrontMatterProvider = True,
     enableFileScannerProvider = True,
     latexTriggerInCodeBlocks = True,
     latexIgnoreCase = True,
     fileScannerScanCurrent = True,
     frontMatterTagAppendSuffix = True,
     frontMatterIgnoreCase = True,
     calloutProviderSource = COMPLETR \<rparr>"

record EditorPosition =
  line :: nat
  ch :: nat

text \<open>
  Modelled from the spec: the \<open>Suggestion\<close> class (\<open>provider/provider.ts\<close>) is not among
  the sources. The spec gives it a \<open>displayName\<close> and a \<open>replacement\<close>;
  \<open>Suggestion.fromString\<close> builds a suggestion whose two texts are the given string.
\<close>

record Suggestion =
  displayName :: string
  replacement :: string

definition fromString :: "string \<Rightarrow> Suggestion" where
  "fromString s = \<lparr> displayName = s, replacement = s \<rparr>"

text \<open>The document of an editor is its list of lines; \<open>activeFile\<close> is the nullable file name.\<close>

record SuggestionContext =
  editor :: "string list"
  activeFile :: "string option"
  query :: string
  separatorChar :: string

text \<open>A value thrown by a provider.\<close>

datatype error = Thrown string

text \<open>
  The interface \<open>SuggestionProvider\<close>: \<open>getSuggestions\<close> may throw (\<open>Inl\<close>), the flag
  \<open>blocksAllOtherProviders\<close> and the method \<open>isEnabled\<close> are optional members
  (\<open>None\<close> is \<open>undefined\<close>).
\<close>

record SuggestionProvider =
  getSuggestions :: "SuggestionContext \<Rightarrow> MyAutoCompletionSettings \<Rightarrow> error + Suggestion list"
  blocksAllOtherProviders :: "bool option"
  isEnabled :: "(MyAutoCompletionSettings \<Rightarrow> bool) option"

section \<open>Suggestion provider pipeline\<close>

text \<open>\<open>provider.isEnabled?.(settings)\<close>: \<open>undefined\<close> when the method is missing.\<close>

definition isEnabled_optcall :: "SuggestionProvider \<Rightarrow> MyAutoCompletionSettings \<Rightarrow> bool option" where
  "isEnabled_optcall p st = (case isEnabled p of None \<Rightarrow> None | Some f \<Rightarrow> Some (f st))"

text \<open>JavaScript truthiness of an optional boolean.\<close>

fun truthy :: "bool option \<Rightarrow> bool" where
  "truthy None = False"
| "truthy (Some b) = b"

text \<open>
  The \<open>for\<close> loop of \<open>SuggestionPopup.getSuggestions\<close> over the remaining providers, with
  the accumulator \<open>allSuggestions\<close>. The body is wrapped in \<open>try\<close>/\<open>catch\<close>: a throw is
  logged and the loop goes on with the next provider. \<open>break\<close> returns at once.
\<close>

fun providerLoop ::
  "SuggestionProvider list \<Rightarrow> SuggestionContext \<Rightarrow> MyAutoCompletionSettings \<Rightarrow>
   Suggestion list \<Rightarrow> Suggestion list" where
  "providerLoop [] ctx st allSuggestions = allSuggestions"
| "providerLoop (provider # rest) ctx st allSuggestions =
     (if \<not> truthy (isEnabled_optcall provider st) then providerLoop rest ctx st allSuggestions
      else case getSuggestions provider ctx st of
             Inl e \<Rightarrow> providerLoop rest ctx st allSuggestions
           | Inr suggestions \<Rightarrow>
               if length suggestions > 0 then
                 (if truthy (blocksAllOtherProviders provider) then suggestions
                  else providerLoop rest ctx st (allSuggestions @ suggestions))
               else providerLoop rest ctx st allSuggestions)"

text \<open>The loop started on the empty result list, for an arbitrary provider list.\<close>

definition compose ::
  "SuggestionProvider list \<Rightarrow> SuggestionContext \<Rightarrow> MyAutoCompletionSettings \<Rightarrow> Suggestion list" where
  "compose providers ctx st = providerLoop providers ctx st []"

text \<open>
  The three providers that implement the interface without an \<open>isEnabled\<close> method.
  Their \<open>getSuggestions\<close> bodies are left as parameters; \<open>Callout\<close> and \<open>FrontMatter\<close>
  set \<open>blocksAllOtherProviders = true\<close>, \<open>Latex\<close> does not declare the flag.
\<close>

definition Latex ::
  "(SuggestionContext \<Rightarrow> MyAutoCompletionSettings \<Rightarrow> error + Suggestion list) \<Rightarrow> SuggestionProvider" where
  "Latex g = \<lparr> getSuggestions = g, blocksAllOtherProviders = None, isEnabled = None \<rparr>"

definition Callout ::
  "(SuggestionContext \<Rightarrow> MyAutoCompletionSettings \<Rightarrow> error + Suggestion list) \<Rightarrow> SuggestionProvider" where
  "Callout g = \<lparr> getSuggestions = g, blocksAllOtherProviders = Some True, isEnabled = None \<rparr>"

definition FrontMatter ::
  "(SuggestionContext \<Rightarrow> MyAutoCompletionSettings \<Rightarrow> error + Suggestion list) \<Rightarrow> SuggestionProvider" where
  "FrontMatter g = \<lparr> getSuggestions = g, blocksAllOtherProviders = Some True, isEnabled = None \<rparr>"

text \<open>
  \<open>SuggestionPopup.getSuggestions\<close> on the suggestion context it has built: the provider
  list is fixed to \<open>[FileScanner, WordList, Latex, Callout, FrontMatter]\<close>. The two
  dictionary providers are passed in as objects.
\<close>

definition SuggestionPopup_getSuggestions ::
  "SuggestionProvider \<Rightarrow> SuggestionProvider \<Rightarrow>
   (SuggestionContext \<Rightarrow> MyAutoCompletionSettings \<Rightarrow> error + Suggestion list) \<Rightarrow>
   (SuggestionContext \<Rightarrow> MyAutoCompletionSettings \<Rightarrow> error + Suggestion list) \<Rightarrow>
   (SuggestionContext \<Rightarrow> MyAutoCompletionSettings \<Rightarrow> error + Suggestion list) \<Rightarrow>
   SuggestionContext \<Rightarrow> MyAutoCompletionSettings \<Rightarrow> Suggestion list" where
  "SuggestionPopup_getSuggestions fileScanner wordList gl gc gf ctx st =
     compose [fileScanner, wordList, Latex gl, Callout gc, FrontMatter gf] ctx st"

text \<open>A provider fires when it is enabled, returns a non-empty list and is exclusive.\<close>

definition fires :: "SuggestionProvider \<Rightarrow> SuggestionContext \<Rightarrow> MyAutoCompletionSettings \<Rightarrow> bool" where
  "fires p ctx st \<longleftrightarrow>
     truthy (isEnabled_optcall p st) \<and> truthy (blocksAllOtherProviders p) \<and>
     (case getSuggestions p ctx st of Inl e \<Rightarrow> False | Inr r \<Rightarrow> r \<noteq> [])"

text \<open>
  The providers of the spec's exclusivity example: \<open>A\<close> (not exclusive, two items),
  \<open>B\<close> (exclusive, one item) and \<open>C\<close> (not exclusive, three items), all enabled.
\<close>

definition exampleA :: SuggestionProvider where
  "exampleA = \<lparr> getSuggestions = (\<lambda>ctx st. Inr [fromString ''a1'', fromString ''a2'']),
                blocksAllOtherProviders = None, isEnabled = Some (\<lambda>st. True) \<rparr>"

definition exampleB :: SuggestionProvider where
  "exampleB = \<lparr> getSuggestions = (\<lambda>ctx st. Inr [fromString ''b1'']),
                blocksAllOtherProviders = Some True, isEnabled = Some (\<lambda>st. True) \<rparr>"

definition exampleC :: SuggestionProvider where
  "exampleC = \<lparr> getSuggestions =
                  (\<lambda>ctx st. Inr [fromString ''c1'', fromString ''c2'', fromString ''c3'']),
                blocksAllOtherProviders = None, isEnabled = Some (\<lambda>st. True) \<rparr>"

text \<open>A provider whose \<open>getSuggestions\<close> throws.\<close>

definition exampleThrowing :: SuggestionProvider where
  "exampleThrowing = \<lparr> getSuggestions = (\<lambda>ctx st. Inl (Thrown ''boom'')),
                blocksAllOtherProviders = Some True, isEnabled = Some (\<lambda>st. True) \<rparr>"

definition exampleContext :: SuggestionContext where
  "exampleContext = \<lparr> editor = [''he''], activeFile = None,
       query = ''he'', separatorChar = [] \<rparr>"

section \<open>Block context scanner\<close>

text \<open>
  The constant set \<open>BlockType\<close> with its delimiter text \<open>c\<close> (here \<open>BlockType_c\<close>), the
  multi-line flag and the reference to the other width of the same family.
\<close>

datatype BlockType = DOLLAR_MULTI | DOLLAR_SINGLE | CODE_MULTI | CODE_SINGLE | NONE


fun isMultiLine :: "BlockType \<Rightarrow> bool" where
  "isMultiLine DOLLAR_MULTI = True"
| "isMultiLine CODE_MULTI = True"
| "isMultiLine b = False"





text \<open>
  \<open>String.charAt\<close>: the one-character string at an index, the empty string outside the
  string. Indices are integers, since the scanning loop counts down to \<open>-1\<close>.
\<close>

definition charAt :: "string \<Rightarrow> int \<Rightarrow> string" where
  "charAt s i = (if 0 \<le> i \<and> nat i < length s then [s ! nat i] else [])"

















section \<open>Prefix dictionary matcher\<close>

text \<open>
  \<open>toLowerCase\<close> and \<open>toUpperCase\<close> on ASCII text: the letters \<open>A\<close> to \<open>Z\<close> (codes 65 to
  90) and \<open>a\<close> to \<open>z\<close> (codes 97 to 122) are mapped, every other character is kept.
\<close>

definition lowerChar :: "char \<Rightarrow> char" where
  "lowerChar c =
     (if (65::nat) \<le> of_char c \<and> of_char c \<le> (90::nat) then char_of (of_char c + (32::nat)) else c)"

definition upperChar :: "char \<Rightarrow> char" where
  "upperChar c =
     (if (97::nat) \<le> of_char c \<and> of_char c \<le> (122::nat) then char_of (of_char c - (32::nat)) else c)"

definition toLowerCase :: "string \<Rightarrow> string" where
  "toLowerCase s = map lowerChar s"

definition toUpperCase :: "string \<Rightarrow> string" where
  "toUpperCase s = map upperChar s"

text \<open>\<open>maybeLowerCase(str, lower)\<close>.\<close>

definition maybeLowerCase :: "string \<Rightarrow> bool \<Rightarrow> string" where
  "maybeLowerCase str lower = (if lower then toLowerCase str else str)"

text \<open>
  \<open>removeDiacritics\<close> normalises to NFD and deletes the combining marks U+0300 to U+036F.
  On ASCII text the normal form is the text itself and it holds no combining mark.
\<close>

definition removeDiacritics :: "string \<Rightarrow> string" where
  "removeDiacritics str = str"

text \<open>\<open>String.startsWith\<close>.\<close>

definition startsWith :: "string \<Rightarrow> string \<Rightarrow> bool" where
  "startsWith s q \<longleftrightarrow> take (length q) s = q"

text \<open>
  A JavaScript \<open>Map\<close> with string keys, as the list of its entries in insertion order:
  \<open>get\<close> and \<open>has\<close> look the key up, \<open>set\<close> replaces the value of a present key in place
  and appends a new key. A \<open>Set\<close> of strings is the list of its elements in insertion
  order; \<open>add\<close> appends a string that is not yet a member.
\<close>

type_synonym 'v jsmap = "(string \<times> 'v) list"

definition Map_get :: "'v jsmap \<Rightarrow> string \<Rightarrow> 'v option" where
  "Map_get m k = map_of m k"

definition Map_has :: "'v jsmap \<Rightarrow> string \<Rightarrow> bool" where
  "Map_has m k \<longleftrightarrow> map_of m k \<noteq> None"

fun Map_set :: "'v jsmap \<Rightarrow> string \<Rightarrow> 'v \<Rightarrow> 'v jsmap" where
  "Map_set [] k v = [(k, v)]"
| "Map_set (p # ps) k v = (if fst p = k then (k, v) # ps else p # Map_set ps k v)"

definition Set_add :: "string list \<Rightarrow> string \<Rightarrow> string list" where
  "Set_add s x = (if x \<in> set s then s else s @ [x])"

text \<open>\<open>SuggestionBlacklist.hasText\<close>; the blacklist is the list of its texts.\<close>

definition hasText :: "string list \<Rightarrow> string \<Rightarrow> bool" where
  "hasText blacklist text \<longleftrightarrow> text \<in> set blacklist"

text \<open>
  \<open>ScannerSuggestionProvider.addWord\<close> on the provider's \<open>wordMap\<close>, a map from the first
  character to a \<open>Set\<close> of words.
\<close>

definition addWord :: "string list \<Rightarrow> string \<Rightarrow> string list jsmap \<Rightarrow> string list jsmap" where
  "addWord blacklist word wordMap =
     (if word = [] \<or> hasText blacklist word then wordMap
      else
        (let first = charAt word 0;
             wordMap1 = (if \<not> Map_has wordMap first then Map_set wordMap first [] else wordMap)
         in case Map_get wordMap1 first of
              None \<Rightarrow> wordMap1
            | Some bucket \<Rightarrow> Map_set wordMap1 first (Set_add bucket word)))"

text \<open>\<open>filterMapIntoArray\<close>: pushes the image of every element that passes the predicate.\<close>

definition filterMapIntoArray ::
  "'t list \<Rightarrow> 'u list \<Rightarrow> ('u \<Rightarrow> bool) \<Rightarrow> ('u \<Rightarrow> 't) \<Rightarrow> 't list" where
  "filterMapIntoArray array iterable predicate mapFn = array @ map mapFn (filter predicate iterable)"

text \<open>\<open>value ?? []\<close>.\<close>

definition orEmpty :: "string list option \<Rightarrow> string list" where
  "orEmpty v = (case v of None \<Rightarrow> [] | Some l \<Rightarrow> l)"

text \<open>
  \<open>DictionaryProvider.getSuggestions\<close>, with the abstract method \<open>isEnabled\<close> and the
  abstract field \<open>wordMap\<close> as parameters. \<open>Array.sort\<close> is stable, as \<open>sort_key\<close> is.
\<close>

definition DictionaryProvider_getSuggestions ::
  "(MyAutoCompletionSettings \<Rightarrow> bool) \<Rightarrow> string list jsmap \<Rightarrow> SuggestionContext \<Rightarrow> MyAutoCompletionSettings \<Rightarrow> Suggestion list" where
  "DictionaryProvider_getSuggestions enabled wordMap context settings =
     (if \<not> enabled settings \<or> query context = [] \<or>
         length (query context) < minWordTriggerLength settings then []
      else
        (let ignoreCase = (wordInsertionMode settings \<noteq> MATCH_CASE_REPLACE);
             query0 = maybeLowerCase (query context) ignoreCase;
             query1 = (if ignoreDiacriticsWhenFiltering settings then removeDiacritics query0 else query0);
             firstChar = charAt query1 0;
             listsToCheck0 =
               (if ignoreCase
                then [orEmpty (Map_get wordMap firstChar), orEmpty (Map_get wordMap (toUpperCase firstChar))]
                else [orEmpty (Map_get wordMap firstChar)]);
             listsToCheck =
               (if ignoreDiacriticsWhenFiltering settings
                then listsToCheck0 @
                       map snd (filter (\<lambda>(key, value).
                          removeDiacritics (maybeLowerCase (charAt key 0) ignoreCase) = firstChar) wordMap)
                else listsToCheck0);
             result = foldl (\<lambda>array iterable.
                 filterMapIntoArray array iterable
                   (\<lambda>s. let match0 = maybeLowerCase s ignoreCase;
                            match = (if ignoreDiacriticsWhenFiltering settings
                                     then removeDiacritics match0 else match0)
                        in startsWith match query1)
                   (\<lambda>s. if wordInsertionMode settings = APPEND
                        then fromString (query context @ drop (length query1) s)
                        else fromString s))
                 [] listsToCheck
         in sort_key (\<lambda>a. length (displayName a)) result))"

text \<open>The text is ASCII: the scope in which the case mapping above is JavaScript's.\<close>

definition isAscii :: "string \<Rightarrow> bool" where
  "isAscii s = list_all (\<lambda>c. of_char c < (128::nat)) s"

text \<open>Every bucket of the map is a \<open>Set\<close>: it holds no string twice.\<close>

definition uniqueBuckets :: "string list jsmap \<Rightarrow> bool" where
  "uniqueBuckets wordMap = list_all (\<lambda>(key, bucket). distinct bucket) wordMap"

text \<open>
  \<open>data.split(NEW_LINE_REGEX)\<close> with the regular expression \<open>\r?\n\<close>: the text is cut at
  every line feed, and a carriage return right before the line feed goes with it.
\<close>

fun split_NEW_LINE_REGEX_from :: "string \<Rightarrow> string \<Rightarrow> string list" where
  "split_NEW_LINE_REGEX_from cur [] = [cur]"
| "split_NEW_LINE_REGEX_from cur [c] = (if c = CHR 0x0A then [cur, []] else [cur @ [c]])"
| "split_NEW_LINE_REGEX_from cur (c # d # cs) =
     (if c = CHR 0x0A then cur # split_NEW_LINE_REGEX_from [] (d # cs)
      else if c = CHR 0x0D \<and> d = CHR 0x0A then cur # split_NEW_LINE_REGEX_from [] cs
      else split_NEW_LINE_REGEX_from (cur @ [c]) (d # cs))"

definition split_NEW_LINE_REGEX :: "string \<Rightarrow> string list" where
  "split_NEW_LINE_REGEX data = split_NEW_LINE_REGEX_from [] data"

text \<open>\<open>String.trim\<close> on ASCII text: tab, line feed, vertical tab, form feed, carriage return, space.\<close>

definition isWhiteSpace :: "char \<Rightarrow> bool" where
  "isWhiteSpace c \<longleftrightarrow> c \<in> set [CHR 0x09, CHR 0x0A, CHR 0x0B, CHR 0x0C, CHR 0x0D, CHR 0x20]"

definition trim :: "string \<Rightarrow> string" where
  "trim s = rev (dropWhile isWhiteSpace (rev (dropWhile isWhiteSpace s)))"

text \<open>\<open>SuggestionBlacklist.filterText\<close>.\<close>

definition filterText :: "string list \<Rightarrow> string list \<Rightarrow> string list" where
  "filterText blacklist suggestions =
     (if length blacklist < 1 then suggestions
      else filter (\<lambda>s. \<not> hasText blacklist s) suggestions)"

text \<open>
  \<open>WordListSuggestionProvider.loadFromFiles\<close>: \<open>wordMap\<close> is a map from the first character
  to an array of words. \<open>loadLine\<close> is the body of the loop over the lines of one file,
  \<open>loadFile\<close> the body of the loop over the files (\<open>None\<close> is a file that cannot be
  read, which is skipped), and the last loop sorts every array by length and filters
  it through the blacklist. The setting \<open>minWordLength\<close> is not a member of the settings
  record above; it is a parameter.
\<close>

definition loadLine :: "nat \<Rightarrow> string list jsmap \<Rightarrow> string \<Rightarrow> string list jsmap" where
  "loadLine minWordLength wordMap ln =
     (if ln = [] \<or> length ln < minWordLength then wordMap
      else
        (let key = charAt ln 0;
             wordMap1 = (if \<not> Map_has wordMap key then Map_set wordMap key [] else wordMap)
         in case Map_get wordMap1 key of
              None \<Rightarrow> wordMap1
            | Some arr \<Rightarrow> Map_set wordMap1 key (arr @ [trim ln])))"

definition loadFile :: "nat \<Rightarrow> string list jsmap \<Rightarrow> string option \<Rightarrow> string list jsmap" where
  "loadFile minWordLength wordMap contents =
     (case contents of
        None \<Rightarrow> wordMap
      | Some data \<Rightarrow> foldl (loadLine minWordLength) wordMap (split_NEW_LINE_REGEX data))"

definition loadFromFiles ::
  "string list \<Rightarrow> string option list \<Rightarrow> nat \<Rightarrow> string list jsmap \<times> nat" where
  "loadFromFiles blacklist files minWordLength =
     (let wordMap = foldl (loadFile minWordLength) [] files;
          sorted = map (\<lambda>(k, arr). (k, filterText blacklist (sort_key length arr))) wordMap
      in (sorted, sum_list (map (\<lambda>(k, filtered). length filtered) sorted)))"

text \<open>The file-scanner provider as an object of the pipeline.\<close>

definition FileScanner :: "string list jsmap \<Rightarrow> SuggestionProvider" where
  "FileScanner wordMap = \<lparr>
     getSuggestions = (\<lambda>context settings.
        Inr (DictionaryProvider_getSuggestions enableFileScannerProvider wordMap context settings)),
     blocksAllOtherProviders = None,
     isEnabled = Some enableFileScannerProvider \<rparr>"

section \<open>Snippet placeholder manager\<close>

text \<open>The palette; only its length is used.\<close>

definition COLORS :: "string list" where
  "COLORS = [''lightskyblue'', ''orange'', ''lime'', ''pink'', ''cornsilk'', ''magenta'', ''navajowhite'']"

text \<open>
  A range of the marker field: the decoration built by \<open>handleSnippet\<close> with its bounds.
  Its attribute \<open>class\<close> is \<open>completr-suggestion-placeholder\<close> followed by the colour
  index, here the index itself (a single digit, so that \<open>endsWith\<close> on the class is
  equality of the indices); \<open>reference\<close> is the \<open>PlaceholderReference\<close> object, here a
  number that names it.
\<close>

record Mark =
  mark_from :: nat
  mark_to :: nat
  mark_class :: nat
  mark_reference :: nat

text \<open>
  A transaction carries at most one change, the replacement of the text between two
  offsets, and a list of effects. The effects are the three defined by
  \<open>marker_state_field\<close>.
\<close>

record Change =
  change_from :: nat
  change_to :: nat
  change_insert :: string

datatype StateEffect = addMark Mark | clearMarks | removeMarkBySpecAttribute string nat

record Transaction =
  changes :: "Change option"
  effects :: "StateEffect list"

text \<open>
  The editor: the lines of its document, the value of \<open>markerStateField\<close> and the
  selection last set through \<open>setSelection\<close>. The snippet manager holds its list of
  placeholder references; \<open>nextReference\<close> is the name the next
  \<open>new PlaceholderReference\<close> gets.
\<close>

record Editor =
  doc :: "string list"
  marks :: "Mark list"
  selection :: "(EditorPosition \<times> EditorPosition) option"

record SnippetManager =
  placeholders :: "nat list"
  nextReference :: nat

text \<open>
  Offsets count the characters of the lines and one character for each line break:
  \<open>lineStart\<close> is \<open>line.from\<close>, \<open>docText\<close> the whole text.
\<close>

fun lineStart :: "string list \<Rightarrow> nat \<Rightarrow> nat" where
  "lineStart d 0 = 0"
| "lineStart [] (Suc n) = 0"
| "lineStart (l # ls) (Suc n) = length l + 1 + lineStart ls n"

fun docText :: "string list \<Rightarrow> string" where
  "docText [] = []"
| "docText [l] = l"
| "docText (l # m # ls) = l @ [CHR 0x0A] @ docText (m # ls)"

text \<open>\<open>value.split("\n")\<close>.\<close>

fun splitLF_from :: "string \<Rightarrow> string \<Rightarrow> string list" where
  "splitLF_from cur [] = [cur]"
| "splitLF_from cur (c # cs) =
     (if c = CHR 0x0A then cur # splitLF_from [] cs else splitLF_from (cur @ [c]) cs)"

definition splitLF :: "string \<Rightarrow> string list" where
  "splitLF s = splitLF_from [] s"

text \<open>
  \<open>indexFromPos\<close> and \<open>posFromIndex\<close> of \<open>editor_helpers\<close>; \<open>None\<close> is the RangeError the
  document raises for a line number or an offset outside it.
\<close>

definition indexFromPos :: "string list \<Rightarrow> EditorPosition \<Rightarrow> nat option" where
  "indexFromPos d pos =
     (if line pos \<ge> length d then None
      else Some (min (lineStart d (line pos) + ch pos)
                     (lineStart d (line pos) + length (d ! line pos))))"

definition posFromIndex :: "string list \<Rightarrow> nat \<Rightarrow> EditorPosition option" where
  "posFromIndex d offset =
     (case find (\<lambda>l. lineStart d l \<le> offset \<and> offset \<le> lineStart d l + length (d ! l))
             [0 ..< length d] of
        None \<Rightarrow> None
      | Some l \<Rightarrow> Some \<lparr> line = l, ch = offset - lineStart d l \<rparr>)"

text \<open>
  Modelled from the spec: the host editor and the editor library are external
  collaborators and not among the sources. The spec gives the document accessor the
  mutation \<open>replaceRange(text, from, to)\<close> on positions, and says that the positions of
  the markers are reprojected as the document is edited, an edit elsewhere shifting
  the offsets. The definitions from \<open>posToOffset\<close> to \<open>mapMarks\<close> and \<open>applyChange\<close>
  spell this out. A position is turned into an offset, clamped to the document. A
  position before the change stays; one behind it moves by the difference of the
  lengths; at the change itself the side \<open>assoc\<close> decides. A mark is declared
  \<open>inclusive\<close> by \<open>handleSnippet\<close>, so its start is mapped with the side \<open>-1\<close> and its end
  with the side \<open>1\<close>: text inserted at either end becomes part of the mark. An empty
  mark inside deleted text is dropped.
\<close>

definition posToOffset :: "string list \<Rightarrow> EditorPosition \<Rightarrow> nat" where
  "posToOffset d pos =
     (if line pos \<ge> length d then length (docText d)
      else lineStart d (line pos) + min (ch pos) (length (d ! line pos)))"

datatype MapMode = Simple | TrackDel

definition mapPos :: "Change \<Rightarrow> nat \<Rightarrow> int \<Rightarrow> MapMode \<Rightarrow> nat option" where
  "mapPos c pos assoc mode =
     (let a = change_from c; b = change_to c; ins = length (change_insert c) in
      if pos < a then Some pos
      else if mode = TrackDel \<and> a < pos \<and> pos < b then None
      else if pos < b \<or> (b = pos \<and> assoc < 0 \<and> b = a)
        then Some (if pos = a \<or> assoc < 0 then a else a + ins)
      else Some (a + ins + (pos - b)))"

definition mapMark :: "Change \<Rightarrow> Mark \<Rightarrow> Mark option" where
  "mapMark c m =
     (if mark_from m = mark_to m then
        (case mapPos c (mark_from m) (-1) TrackDel of
           None \<Rightarrow> None
         | Some newFrom \<Rightarrow>
             (case mapPos c (mark_from m) 1 Simple of
                None \<Rightarrow> None
              | Some newTo \<Rightarrow>
                  if newTo < newFrom then None
                  else Some (m \<lparr> mark_from := newFrom, mark_to := newTo \<rparr>)))
      else
        (case (mapPos c (mark_from m) (-1) Simple, mapPos c (mark_to m) 1 Simple) of
           (Some newFrom, Some newTo) \<Rightarrow>
              if newFrom > newTo then None
              else Some (m \<lparr> mark_from := newFrom, mark_to := newTo \<rparr>)
         | _ \<Rightarrow> None))"

definition mapMarks :: "Change option \<Rightarrow> Mark list \<Rightarrow> Mark list" where
  "mapMarks c value = (case c of None \<Rightarrow> value | Some c' \<Rightarrow> List.map_filter (mapMark c') value)"

text \<open>
  \<open>markerStateField.update\<close>: the ranges are first mapped through the changes of the
  transaction, then every effect is applied in order. \<open>deco.spec[attr]\<close> is the
  reference for the attribute \<open>reference\<close>, the only one the manager asks for.
\<close>

definition specAttribute :: "Mark \<Rightarrow> string \<Rightarrow> nat option" where
  "specAttribute m attr = (if attr = ''reference'' then Some (mark_reference m) else None)"

fun applyEffect :: "Mark list \<Rightarrow> StateEffect \<Rightarrow> Mark list" where
  "applyEffect value (addMark m) = value @ [m]"
| "applyEffect value clearMarks = []"
| "applyEffect value (removeMarkBySpecAttribute attr reference) =
     filter (\<lambda>deco. specAttribute deco attr \<noteq> Some reference) value"

definition markerStateField_update :: "Mark list \<Rightarrow> Transaction \<Rightarrow> Mark list" where
  "markerStateField_update value tr = foldl applyEffect (mapMarks (changes tr) value) (effects tr)"

text \<open>
  \<open>view.dispatch\<close>: the change is applied to the text and the marker field updated.
  The remapping of the selection by the host is not tracked.
\<close>

definition applyChange :: "Change option \<Rightarrow> string list \<Rightarrow> string list" where
  "applyChange c d =
     (case c of
        None \<Rightarrow> d
      | Some c' \<Rightarrow> splitLF (take (change_from c') (docText d) @ change_insert c' @
                              drop (change_to c') (docText d)))"

definition dispatch :: "Editor \<Rightarrow> Transaction \<Rightarrow> Editor" where
  "dispatch ed tr = ed \<lparr> doc := applyChange (changes tr) (doc ed),
                          marks := markerStateField_update (marks ed) tr \<rparr>"

text \<open>\<open>editor.replaceRange(text, from, to)\<close>.\<close>

definition replaceRange :: "Editor \<Rightarrow> string \<Rightarrow> EditorPosition \<Rightarrow> EditorPosition \<Rightarrow> Editor" where
  "replaceRange ed text from to =
     dispatch ed \<lparr> changes = Some \<lparr> change_from = posToOffset (doc ed) from,
                                      change_to = posToOffset (doc ed) to,
                                      change_insert = text \<rparr>,
                    effects = [] \<rparr>"

text \<open>
  \<open>PlaceholderReference.marker\<close> and \<open>removeFromEditor\<close>, and \<open>SnippetManager.selectMarker\<close>.
\<close>

definition marker :: "Editor \<Rightarrow> nat \<Rightarrow> Mark option" where
  "marker ed reference = find (\<lambda>m. mark_reference m = reference) (marks ed)"

definition removeFromEditor :: "Editor \<Rightarrow> nat \<Rightarrow> Editor" where
  "removeFromEditor ed reference =
     dispatch ed \<lparr> changes = None, effects = [removeMarkBySpecAttribute ''reference'' reference] \<rparr>"

definition selectMarker :: "Editor \<Rightarrow> nat \<Rightarrow> Editor option" where
  "selectMarker ed reference =
     (case marker ed reference of
        None \<Rightarrow> Some ed
      | Some m \<Rightarrow>
          (case posFromIndex (doc ed) (mark_from m) of
             None \<Rightarrow> None
           | Some from \<Rightarrow>
               Some (ed \<lparr> selection := Some (from, \<lparr> line = line from, ch = ch from + 1 \<rparr>) \<rparr>)))"

text \<open>
  The choice of the colour at the start of \<open>handleSnippet\<close>: the lowest index no live
  placeholder uses, or \<open>Math.floor(Math.random() * COLORS.length)\<close>, passed in as
  \<open>random\<close>.
\<close>

definition pickColorIndex :: "Editor \<Rightarrow> SnippetManager \<Rightarrow> nat \<Rightarrow> nat" where
  "pickColorIndex ed mgr random =
     (case find (\<lambda>colorIndex.
                  find (\<lambda>p. case marker ed p of None \<Rightarrow> False
                                | Some m \<Rightarrow> mark_class m = colorIndex) (placeholders mgr) = None)
             [0 ..< length COLORS] of
        Some colorIndex \<Rightarrow> colorIndex
      | None \<Rightarrow> random)"

text \<open>
  \<open>handleSnippet\<close>: \<open>handleChars\<close> is the inner loop over the columns of one line of the
  snippet, given as the list of the columns still to visit (right to left),
  \<open>handleLines\<close> the outer loop over the lines (bottom to top). \<open>unshift\<close> puts the new
  reference in front of the list.
\<close>

fun handleChars ::
  "string \<Rightarrow> nat \<Rightarrow> EditorPosition \<Rightarrow> nat \<Rightarrow> nat list \<Rightarrow> Editor \<times> SnippetManager \<Rightarrow>
   (Editor \<times> SnippetManager) option" where
  "handleChars lineText lineIndex start colorIndex [] s = Some s"
| "handleChars lineText lineIndex start colorIndex (i # rest) (ed, mgr) =
     (let c = charAt lineText (int i) in
      if c \<noteq> ''#'' \<and> c \<noteq> ''~'' then handleChars lineText lineIndex start colorIndex rest (ed, mgr)
      else
        (let offsetInLine = i;
             lineBaseOffset = (if lineIndex = 0 then ch start else 0)
         in if c = ''~'' then
              (let pos = \<lparr> line = line start + lineIndex, ch = lineBaseOffset + offsetInLine \<rparr>
               in handleChars lineText lineIndex start colorIndex rest
                    (replaceRange ed [] pos (pos \<lparr> ch := ch pos + 1 \<rparr>), mgr))
            else
              (case indexFromPos (doc ed)
                      \<lparr> line = line start + lineIndex, ch = lineBaseOffset + offsetInLine \<rparr> of
                 None \<Rightarrow> None
               | Some from \<Rightarrow>
                   (let ref = nextReference mgr;
                        to = from + 1;
                        deco = \<lparr> mark_from = from, mark_to = to, mark_class = colorIndex,
                                 mark_reference = ref \<rparr>
                    in handleChars lineText lineIndex start colorIndex rest
                         (dispatch ed \<lparr> changes = None, effects = [addMark deco] \<rparr>,
                          mgr \<lparr> placeholders := ref # placeholders mgr,
                                nextReference := Suc ref \<rparr>)))))"

fun handleLines ::
  "string list \<Rightarrow> EditorPosition \<Rightarrow> nat \<Rightarrow> nat list \<Rightarrow> Editor \<times> SnippetManager \<Rightarrow>
   (Editor \<times> SnippetManager) option" where
  "handleLines lines start colorIndex [] s = Some s"
| "handleLines lines start colorIndex (lineIndex # rest) s =
     (case handleChars (lines ! lineIndex) lineIndex start colorIndex
             (rev [0 ..< length (lines ! lineIndex)]) s of
        None \<Rightarrow> None
      | Some s' \<Rightarrow> handleLines lines start colorIndex rest s')"

definition handleSnippet ::
  "string \<Rightarrow> EditorPosition \<Rightarrow> nat \<Rightarrow> Editor \<times> SnippetManager \<Rightarrow>
   (Editor \<times> SnippetManager) option" where
  "handleSnippet value start random s =
     (let colorIndex = pickColorIndex (fst s) (snd s) random;
          lines = splitLF value
      in case handleLines lines start colorIndex (rev [0 ..< length lines]) s of
           None \<Rightarrow> None
         | Some (ed, mgr) \<Rightarrow>
             if length (placeholders mgr) > 0
             then (case selectMarker ed (hd (placeholders mgr)) of
                     None \<Rightarrow> None | Some ed' \<Rightarrow> Some (ed', mgr))
             else Some (ed, mgr))"

text \<open>\<open>consumeAndGotoNextMarker\<close> and \<open>clearAllPlaceholders\<close>.\<close>

definition consumeAndGotoNextMarker :: "Editor \<times> SnippetManager \<Rightarrow> (bool \<times> Editor \<times> SnippetManager) option" where
  "consumeAndGotoNextMarker s =
     (let (ed, mgr) = s;
          ed1 = (case placeholders mgr of [] \<Rightarrow> ed | oldPlaceholder # rest \<Rightarrow> removeFromEditor ed oldPlaceholder);
          mgr1 = mgr \<lparr> placeholders := tl (placeholders mgr) \<rparr>
      in if length (placeholders mgr1) < 1 then Some (False, ed1, mgr1)
         else
           (let nextPh = hd (placeholders mgr1) in
            case marker ed1 nextPh of
              None \<Rightarrow> Some (False, ed1, mgr1)
            | Some nextRange \<Rightarrow>
                (case selectMarker ed1 nextPh of
                   None \<Rightarrow> None
                 | Some ed2 \<Rightarrow> Some (True, ed2, mgr1))))"

definition clearAllPlaceholders :: "Editor \<times> SnippetManager \<Rightarrow> Editor \<times> SnippetManager" where
  "clearAllPlaceholders s =
     (let (ed, mgr) = s in
      if length (placeholders mgr) = 0 then (ed, mgr)
      else (dispatch ed \<lparr> changes = None, effects = [clearMarks] \<rparr>, mgr \<lparr> placeholders := [] \<rparr>))"

text \<open>An editor without markers on a given document, and a manager without placeholders.\<close>

definition editorWith :: "string list \<Rightarrow> Editor" where
  "editorWith d = \<lparr> doc = d, marks = [], selection = None \<rparr>"
definition emptyManager :: SnippetManager where
  "emptyManager = \<lparr> placeholders = [], nextReference = 0 \<rparr>"

text \<open>The range of the mark has length exactly 1.\<close>

definition unitMark :: "Mark \<Rightarrow> bool" where
  "unitMark m \<longleftrightarrow> mark_to m = mark_from m + 1"

text \<open>
  The position \<open>handleSnippet\<close> computes for column \<open>i\<close> of line \<open>lineIndex\<close> of the snippet,
  and what it is for a mark to be the one registered for a \<open>#\<close> of the snippet: a mark
  of length 1 and of the chosen colour, at the offset of that position.
\<close>

definition sentinelPos :: "EditorPosition \<Rightarrow> nat \<Rightarrow> nat \<Rightarrow> EditorPosition" where
  "sentinelPos start lineIndex i =
     \<lparr> line = line start + lineIndex, ch = (if lineIndex = 0 then ch start else 0) + i \<rparr>"

definition marksHashOfLine ::
  "string list \<Rightarrow> EditorPosition \<Rightarrow> string \<Rightarrow> nat \<Rightarrow> nat \<Rightarrow> Mark \<Rightarrow> bool" where
  "marksHashOfLine d start lineText lineIndex colorIndex m \<longleftrightarrow>
     unitMark m \<and> mark_class m = colorIndex \<and>
     list_ex (\<lambda>i. charAt lineText (int i) = ''#'' \<and>
                 indexFromPos d (sentinelPos start lineIndex i) = Some (mark_from m))
       [0 ..< length lineText]"

definition marksHash :: "string list \<Rightarrow> EditorPosition \<Rightarrow> string list \<Rightarrow> nat \<Rightarrow> Mark \<Rightarrow> bool" where
  "marksHash d start lines colorIndex m \<longleftrightarrow>
     list_ex (\<lambda>lineIndex. marksHashOfLine d start (lines ! lineIndex) lineIndex colorIndex m)
       [0 ..< length lines]"

text \<open>The document holds the snippet's lines at the insertion position.\<close>

definition snippetInDoc :: "string list \<Rightarrow> EditorPosition \<Rightarrow> string list \<Rightarrow> bool" where
  "snippetInDoc d start lines \<longleftrightarrow>
     list_all (\<lambda>k. line start + k < length d \<and>
                 take (length (lines ! k))
                   (drop (if k = 0 then ch start else 0) (d ! (line start + k))) = lines ! k)
       [0 ..< length lines]"

text \<open>
  The change lies strictly before the mark or strictly behind it; an effect adds only
  marks of length 1.
\<close>

definition editElsewhere :: "Change \<Rightarrow> Mark \<Rightarrow> bool" where
  "editElsewhere c m \<longleftrightarrow> change_to c < mark_from m \<or> mark_to m < change_from c"

definition addsUnitMark :: "StateEffect \<Rightarrow> bool" where
  "addsUnitMark e = (case e of addMark m \<Rightarrow> unitMark m | _ \<Rightarrow> True)"

section \<open>Properties of the pipeline\<close>

lemma providerLoop_append_no_fire:
  "list_all (\<lambda>q. \<not> fires q ctx st) pre \<Longrightarrow>
   \<exists>acc'. providerLoop (pre @ rest) ctx st acc = providerLoop rest ctx st acc'"
proof (induction pre arbitrary: acc)
  case Nil
  show ?case by auto
next
  case (Cons q pre)
  then have nf: "\<not> fires q ctx st" and rest: "list_all (\<lambda>q. \<not> fires q ctx st) pre"
    by simp_all
  show ?case
  proof (cases "truthy (isEnabled_optcall q st)")
    case False
    then show ?thesis using Cons.IH [OF rest] by simp
  next
    case en: True
    show ?thesis
    proof (cases "getSuggestions q ctx st")
      case (Inl e)
      then show ?thesis using en Cons.IH [OF rest] by simp
    next
      case (Inr r)
      then show ?thesis using en nf Cons.IH [OF rest]
        by (auto simp: fires_def)
    qed
  qed
qed

lemma providerLoop_fires:
  "fires p ctx st \<Longrightarrow> getSuggestions p ctx st = Inr r \<Longrightarrow>
   providerLoop (p # post) ctx st acc = r"
  by (auto simp: fires_def)

lemma providerLoop_skip:
  "\<not> truthy (isEnabled_optcall p st) \<or> (\<exists>e. getSuggestions p ctx st = Inl e) \<Longrightarrow>
   providerLoop (pre @ p # post) ctx st acc = providerLoop (pre @ post) ctx st acc"
  by (induction pre arbitrary: acc) (auto split: sum.splits)

text \<open>
  C2. When a provider is enabled, returns a non-empty result and is exclusive, and no
  provider before it in the priority order does so, the composed result is exactly that
  provider's result, whatever providers follow it: they are not consulted.
\<close>

theorem exclusive_provider_wins:
  assumes "list_all (\<lambda>q. \<not> fires q ctx st) pre"
    and "truthy (isEnabled_optcall p st)"
    and "truthy (blocksAllOtherProviders p)"
    and "getSuggestions p ctx st = Inr r"
    and "r \<noteq> []"
  shows "compose (pre @ p # post) ctx st = r"
proof -
  have f: "fires p ctx st"
    using assms(2-5) by (simp add: fires_def)
  obtain acc' where "providerLoop (pre @ p # post) ctx st [] = providerLoop (p # post) ctx st acc'"
    using providerLoop_append_no_fire [OF assms(1)] by blast
  then show ?thesis
    using providerLoop_fires [OF f assms(4)] by (simp add: compose_def)
qed

theorem exclusive_provider_wins_witness:
  "list_all (\<lambda>q. \<not> fires q exampleContext DEFAULT_SETTINGS) [exampleA] \<and>
   truthy (isEnabled_optcall exampleB DEFAULT_SETTINGS) \<and>
   truthy (blocksAllOtherProviders exampleB) \<and>
   getSuggestions exampleB exampleContext DEFAULT_SETTINGS = Inr [fromString ''b1''] \<and>
   [fromString ''b1''] \<noteq> [] \<and>
   compose [exampleA, exampleB, exampleC] exampleContext DEFAULT_SETTINGS = [fromString ''b1'']"
proof -
  have h1: "list_all (\<lambda>q. \<not> fires q exampleContext DEFAULT_SETTINGS) [exampleA]"
    by (simp add: fires_def exampleA_def)
  have h2: "truthy (isEnabled_optcall exampleB DEFAULT_SETTINGS)"
    by (simp add: isEnabled_optcall_def exampleB_def)
  have h3: "truthy (blocksAllOtherProviders exampleB)"
    by (simp add: exampleB_def)
  have h4: "getSuggestions exampleB exampleContext DEFAULT_SETTINGS = Inr [fromString ''b1'']"
    by (simp add: exampleB_def)
  have h5: "[fromString ''b1''] \<noteq> []"
    by simp
  show ?thesis
    using exclusive_provider_wins [OF h1 h2 h3 h4 h5, of "[exampleC]"] h1 h2 h3 h4 by simp
qed

text \<open>
  C6. A provider whose \<open>getSuggestions\<close> throws contributes nothing: the composed result
  is the one obtained from the provider list without it, so the providers before and
  after it contribute as they do without it; the pipeline itself returns a list.
\<close>

theorem throwing_provider_isolated:
  assumes "getSuggestions p ctx st = Inl e"
  shows "compose (pre @ p # post) ctx st = compose (pre @ post) ctx st"
  unfolding compose_def using assms by (intro providerLoop_skip) blast

theorem throwing_provider_isolated_witness:
  "getSuggestions exampleThrowing exampleContext DEFAULT_SETTINGS = Inl (Thrown ''boom'') \<and>
   compose [exampleA, exampleThrowing, exampleC] exampleContext DEFAULT_SETTINGS =
   compose [exampleA, exampleC] exampleContext DEFAULT_SETTINGS"
proof -
  have h: "getSuggestions exampleThrowing exampleContext DEFAULT_SETTINGS = Inl (Thrown ''boom'')"
    by (simp add: exampleThrowing_def)
  show ?thesis
    using throwing_provider_isolated [OF h, of "[exampleA]" "[exampleC]"] h by simp
qed

text \<open>
  C10. A provider without an \<open>isEnabled\<close> method is skipped by the pipeline; hence the
  Latex, Callout and FrontMatter providers contribute nothing to the result of
  \<open>SuggestionPopup.getSuggestions\<close>, for every context and every settings value.
\<close>

theorem missing_isEnabled_skipped:
  "(\<forall>pre p post ctx st. isEnabled p = None \<longrightarrow>
      compose (pre @ p # post) ctx st = compose (pre @ post) ctx st) \<and>
   (\<forall>fileScanner wordList gl gc gf ctx st.
      SuggestionPopup_getSuggestions fileScanner wordList gl gc gf ctx st =
      compose [fileScanner, wordList] ctx st)"
proof (intro conjI allI impI)
  fix pre post :: "SuggestionProvider list" and p :: SuggestionProvider
    and ctx :: SuggestionContext and st :: MyAutoCompletionSettings
  assume "isEnabled p = None"
  then have "\<not> truthy (isEnabled_optcall p st)"
    by (simp add: isEnabled_optcall_def)
  then show "compose (pre @ p # post) ctx st = compose (pre @ post) ctx st"
    unfolding compose_def by (intro providerLoop_skip) blast
next
  fix fileScanner wordList gl gc gf ctx st
  have l: "\<not> truthy (isEnabled_optcall (Latex gl) st)"
    and c: "\<not> truthy (isEnabled_optcall (Callout gc) st)"
    and f: "\<not> truthy (isEnabled_optcall (FrontMatter gf) st)"
    by (simp_all add: isEnabled_optcall_def Latex_def Callout_def FrontMatter_def)
  have s1: "providerLoop [fileScanner, wordList, Latex gl, Callout gc, FrontMatter gf] ctx st []
        = providerLoop [fileScanner, wordList, Callout gc, FrontMatter gf] ctx st []"
    using providerLoop_skip [of "Latex gl" st ctx "[fileScanner, wordList]"
        "[Callout gc, FrontMatter gf]" "[]"] l by simp
  have s2: "providerLoop [fileScanner, wordList, Callout gc, FrontMatter gf] ctx st []
        = providerLoop [fileScanner, wordList, FrontMatter gf] ctx st []"
    using providerLoop_skip [of "Callout gc" st ctx "[fileScanner, wordList]"
        "[FrontMatter gf]" "[]"] c by simp
  have s3: "providerLoop [fileScanner, wordList, FrontMatter gf] ctx st []
        = providerLoop [fileScanner, wordList] ctx st []"
    using providerLoop_skip [of "FrontMatter gf" st ctx "[fileScanner, wordList]" "[]" "[]"] f
    by simp
  show "SuggestionPopup_getSuggestions fileScanner wordList gl gc gf ctx st =
      compose [fileScanner, wordList] ctx st"
    unfolding SuggestionPopup_getSuggestions_def compose_def
    using s1 s2 s3 by (rule trans [OF trans])
qed

theorem missing_isEnabled_skipped_witness:
  "isEnabled (Callout (\<lambda>ctx st. Inr [fromString ''note''])) = None \<and>
   compose [exampleA, Callout (\<lambda>ctx st. Inr [fromString ''note'']), exampleC]
     exampleContext DEFAULT_SETTINGS =
   compose [exampleA, exampleC] exampleContext DEFAULT_SETTINGS"
proof -
  have h: "isEnabled (Callout (\<lambda>ctx st. Inr [fromString ''note''])) = None"
    by (simp add: Callout_def)
  have "compose ([exampleA] @ Callout (\<lambda>ctx st. Inr [fromString ''note'']) # [exampleC])
          exampleContext DEFAULT_SETTINGS =
        compose ([exampleA] @ [exampleC]) exampleContext DEFAULT_SETTINGS"
    using missing_isEnabled_skipped h by blast
  then show ?thesis using h by simp
qed

section \<open>Properties of the block context scanner\<close>













section \<open>Properties of the prefix dictionary matcher\<close>

lemma Map_get_set_same: "Map_get (Map_set m k v) k = Some v"
  by (induction m) (auto simp: Map_get_def)

lemma Map_get_set_other: "k' \<noteq> k \<Longrightarrow> Map_get (Map_set m k v) k' = Map_get m k'"
  by (induction m) (auto simp: Map_get_def)

lemma Map_set_set: "Map_set (Map_set m k u) k v = Map_set m k v"
  by (induction m) auto

lemma Map_set_entries:
  "(k', b) \<in> set (Map_set m k v) \<Longrightarrow> (k', b) \<in> set m \<or> (k' = k \<and> b = v)"
  by (induction m) (auto split: if_splits)

lemma Map_get_in_set: "Map_get m k = Some b \<Longrightarrow> (k, b) \<in> set m"
  by (simp add: Map_get_def map_of_SomeD)

lemma addWord_eq:
  assumes "word \<noteq> []" and "\<not> hasText blacklist word"
  shows "addWord blacklist word wordMap =
         Map_set wordMap (charAt word 0) (Set_add (orEmpty (Map_get wordMap (charAt word 0))) word)"
proof (cases "Map_get wordMap (charAt word 0)")
  case None
  then have "\<not> Map_has wordMap (charAt word 0)"
    by (simp add: Map_has_def Map_get_def)
  then show ?thesis using assms None
    by (simp add: addWord_def Let_def Map_get_set_same Map_set_set orEmpty_def)
next
  case (Some b)
  then have "Map_has wordMap (charAt word 0)"
    by (simp add: Map_has_def Map_get_def)
  then show ?thesis using assms Some
    by (simp add: addWord_def Let_def orEmpty_def)
qed

lemma addWord_bucket:
  assumes "word \<noteq> []" and "\<not> hasText blacklist word"
  shows "Map_get (addWord blacklist word wordMap) (charAt word 0) =
         Some (Set_add (orEmpty (Map_get wordMap (charAt word 0))) word)"
  using assms by (simp add: addWord_eq Map_get_set_same)

lemma Set_add_member: "word \<in> set (Set_add bucket word)"
  by (simp add: Set_add_def)

lemma Set_add_idem: "Set_add (Set_add bucket word) word = Set_add bucket word"
  by (simp add: Set_add_def)

lemma count_list_distinct:
  "distinct xs \<Longrightarrow> count_list xs x = (if x \<in> set xs then 1 else 0)"
  by (induction xs) auto

lemma Set_add_count: "distinct bucket \<Longrightarrow> count_list (Set_add bucket word) word = 1"
  by (simp add: Set_add_def count_list_distinct)

lemma Set_add_distinct: "distinct bucket \<Longrightarrow> distinct (Set_add bucket word)"
  by (simp add: Set_add_def)

lemma addWord_idem: "addWord blacklist word (addWord blacklist word wordMap) = addWord blacklist word wordMap"
proof (cases "word = [] \<or> hasText blacklist word")
  case True
  then show ?thesis by (auto simp: addWord_def)
next
  case False
  then have w: "word \<noteq> []" "\<not> hasText blacklist word" by simp_all
  show ?thesis
    by (simp add: addWord_eq [OF w] Map_get_set_same orEmpty_def Set_add_idem Map_set_set)
qed

lemma orEmpty_distinct:
  assumes "uniqueBuckets wordMap"
  shows "distinct (orEmpty (Map_get wordMap k))"
proof (cases "Map_get wordMap k")
  case None
  then show ?thesis by (simp add: orEmpty_def)
next
  case (Some b)
  then have "(k, b) \<in> set wordMap" by (rule Map_get_in_set)
  then show ?thesis using assms Some
    by (auto simp: uniqueBuckets_def list_all_iff orEmpty_def)
qed

lemma addWord_uniqueBuckets:
  assumes "uniqueBuckets wordMap"
  shows "uniqueBuckets (addWord blacklist word wordMap)"
proof (cases "word = [] \<or> hasText blacklist word")
  case True
  then show ?thesis using assms by (auto simp: addWord_def)
next
  case False
  then have w: "word \<noteq> []" "\<not> hasText blacklist word" by simp_all
  have d: "distinct (Set_add (orEmpty (Map_get wordMap (charAt word 0))) word)"
    using orEmpty_distinct [OF assms] by (rule Set_add_distinct)
  show ?thesis
    unfolding addWord_eq [OF w] uniqueBuckets_def list_all_iff
  proof (intro ballI)
    fix e assume e: "e \<in> set (Map_set wordMap (charAt word 0)
        (Set_add (orEmpty (Map_get wordMap (charAt word 0))) word))"
    obtain k b where kb: "e = (k, b)" by (cases e)
    from e kb Map_set_entries [of k b wordMap]
    have "(k, b) \<in> set wordMap \<or> b = Set_add (orEmpty (Map_get wordMap (charAt word 0))) word"
      by blast
    then show "case e of (key, bucket) \<Rightarrow> distinct bucket"
      using kb d assms by (auto simp: uniqueBuckets_def list_all_iff)
  qed
qed

text \<open>
  C8 (amended). For the file scanner's word table, whose buckets are sets: adding the
  same word twice gives the table obtained by adding it once, the word's bucket then
  holds it exactly once, and every bucket still holds no string twice.
\<close>

theorem scanner_addWord_idempotent:
  assumes "uniqueBuckets wordMap" and "word \<noteq> []" and "\<not> hasText blacklist word"
  shows "addWord blacklist word (addWord blacklist word wordMap) = addWord blacklist word wordMap \<and>
         (\<exists>bucket. Map_get (addWord blacklist word (addWord blacklist word wordMap)) (charAt word 0)
              = Some bucket \<and> count_list bucket word = 1) \<and>
         uniqueBuckets (addWord blacklist word (addWord blacklist word wordMap))"
proof -
  have "count_list (Set_add (orEmpty (Map_get wordMap (charAt word 0))) word) word = 1"
    using orEmpty_distinct [OF assms(1)] by (rule Set_add_count)
  then have "\<exists>bucket. Map_get (addWord blacklist word wordMap) (charAt word 0) = Some bucket \<and>
               count_list bucket word = 1"
    using addWord_bucket [OF assms(2,3)] by simp
  then show ?thesis
    using addWord_uniqueBuckets [OF assms(1)] by (simp add: addWord_idem)
qed

theorem scanner_addWord_idempotent_witness:
  "uniqueBuckets [(''h'', [''help''])] \<and> ''hello'' \<noteq> [] \<and> \<not> hasText [''his''] ''hello'' \<and>
   addWord [''his''] ''hello'' (addWord [''his''] ''hello'' [(''h'', [''help''])])
     = [(''h'', [''help'', ''hello''])]"
proof -
  have h1: "uniqueBuckets [(''h'', [''help''])]" by (simp add: uniqueBuckets_def)
  have h2: "''hello'' \<noteq> []" by simp
  have h3: "\<not> hasText [''his''] ''hello''" by (simp add: hasText_def)
  have "addWord [''his''] ''hello'' [(''h'', [''help''])] = [(''h'', [''help'', ''hello''])]"
    by (simp add: addWord_def hasText_def charAt_def Map_has_def Map_get_def Set_add_def)
  then show ?thesis
    using scanner_addWord_idempotent [OF h1 h2 h3] h1 h3 by simp
qed

text \<open>
  C8 as stated fails for the word-list table: its buckets are arrays, and a file that
  lists a word twice leaves it twice in the bucket.
\<close>

theorem word_list_keeps_duplicates:
  "fst (loadFromFiles [] [Some (''hello'' @ [CHR 0x0A] @ ''hello'')] 0)
     = [(''h'', [''hello'', ''hello''])] \<and>
   count_list [''hello'', ''hello''] ''hello'' = 2"
  by (simp add: loadFromFiles_def loadFile_def loadLine_def split_NEW_LINE_REGEX_def
      filterText_def trim_def isWhiteSpace_def charAt_def Map_has_def Map_get_def)

lemma foldl_filterMap_set:
  "set (foldl (\<lambda>array iterable. filterMapIntoArray array iterable P f) acc lsts)
   = set acc \<union> f ` {x. (\<exists>l \<in> set lsts. x \<in> set l) \<and> P x}"
  by (induction lsts arbitrary: acc) (auto simp: filterMapIntoArray_def)

lemma lowerChar_cases: "c = lowerChar c \<or> c = upperChar (lowerChar c)"
proof (cases "(65::nat) \<le> of_char c \<and> of_char c \<le> (90::nat)")
  case True
  have lc: "lowerChar c = char_of (of_char c + (32::nat))"
    using True by (simp add: lowerChar_def)
  have "(of_char c + (32::nat)) mod 256 = of_char c + 32"
    using True by simp
  then have oc: "of_char (lowerChar c) = of_char c + (32::nat)"
    unfolding lc by simp
  then have "upperChar (lowerChar c) = char_of (of_char (lowerChar c) - (32::nat))"
    using True by (simp add: upperChar_def)
  then have "upperChar (lowerChar c) = c"
    unfolding oc by simp
  then show ?thesis by simp
next
  case False
  then show ?thesis by (auto simp: lowerChar_def)
qed

lemma charAt_first: "s \<noteq> [] \<Longrightarrow> charAt s 0 = [hd s]"
  by (cases s) (simp_all add: charAt_def)

lemma startsWith_first:
  assumes "startsWith s q" and "q \<noteq> []"
  shows "s \<noteq> [] \<and> hd s = hd q"
proof -
  from assms have t: "take (length q) s = q" by (simp add: startsWith_def)
  with assms(2) have "s \<noteq> []" by auto
  moreover from t assms(2) have "hd s = hd q"
    by (metis hd_take length_greater_0_conv)
  ultimately show ?thesis by simp
qed

lemma dict_member:
  fixes st :: MyAutoCompletionSettings and ctx :: SuggestionContext
  defines "ic \<equiv> wordInsertionMode st \<noteq> MATCH_CASE_REPLACE"
  defines "q \<equiv> maybeLowerCase (query ctx) ic"
  assumes en: "enabled st" and ne: "query ctx \<noteq> []"
    and len: "minWordTriggerLength st \<le> length (query ctx)"
    and bucket: "Map_get wm k = Some ws" and w: "w \<in> set ws"
    and key: "k = charAt q 0 \<or> (ic \<and> k = toUpperCase (charAt q 0))"
    and m: "startsWith (maybeLowerCase w ic) q"
  shows "(if wordInsertionMode st = APPEND then fromString (query ctx @ drop (length (query ctx)) w)
          else fromString w)
         \<in> set (DictionaryProvider_getSuggestions enabled wm ctx st)"
proof -
  have lq: "length q = length (query ctx)"
    by (simp add: q_def maybeLowerCase_def toLowerCase_def)
  define lists0 where "lists0 =
       (if ic then [orEmpty (Map_get wm (charAt q 0)), orEmpty (Map_get wm (toUpperCase (charAt q 0)))]
        else [orEmpty (Map_get wm (charAt q 0))])"
  define extra where "extra = map snd (filter (\<lambda>(key, value).
        removeDiacritics (maybeLowerCase (charAt key 0) ic) = charAt q 0) wm)"
  define lsts where "lsts = (if ignoreDiacriticsWhenFiltering st then lists0 @ extra else lists0)"
  define P where "P = (\<lambda>s. startsWith (maybeLowerCase s ic) q)"
  define f where "f = (\<lambda>s. if wordInsertionMode st = APPEND
       then fromString (query ctx @ drop (length q) s) else fromString s)"
  have "ws \<in> set lists0"
    using key bucket by (auto simp: lists0_def orEmpty_def)
  then have "ws \<in> set lsts" by (simp add: lsts_def)
  moreover have "P w" using m by (simp add: P_def)
  ultimately have mem: "f w \<in> set (foldl (\<lambda>array iterable. filterMapIntoArray array iterable P f) [] lsts)"
    using w unfolding foldl_filterMap_set by blast
  have "DictionaryProvider_getSuggestions enabled wm ctx st =
        sort_key (\<lambda>a. length (displayName a))
          (foldl (\<lambda>array iterable. filterMapIntoArray array iterable P f) [] lsts)"
    unfolding DictionaryProvider_getSuggestions_def Let_def removeDiacritics_def
      lsts_def lists0_def extra_def P_def f_def ic_def q_def
    using en ne len by (simp cong: if_cong)
  then have "f w \<in> set (DictionaryProvider_getSuggestions enabled wm ctx st)"
    using mem by simp
  then show ?thesis by (simp only: f_def lq)
qed

text \<open>
  C4 (amended). A word inserted by \<open>addWord\<close> is suggested for every query that is at
  least \<open>minWordTriggerLength\<close> long and, after the case folding in force, a prefix of
  the folded word, when the provider is enabled: the suggestion is the word itself in
  the two replace modes, and the typed query followed by the rest of the word in
  append mode, which is the word when the query is a literal prefix of it.
\<close>

theorem dictionary_round_trip:
  fixes st :: MyAutoCompletionSettings and ctx :: SuggestionContext
  defines "ic \<equiv> wordInsertionMode st \<noteq> MATCH_CASE_REPLACE"
  assumes "isAscii W" and "isAscii Q"
    and nb: "\<not> hasText blacklist W"
    and en: "enabled st" and ne: "Q \<noteq> []"
    and len: "minWordTriggerLength st \<le> length Q"
    and m: "startsWith (maybeLowerCase W ic) (maybeLowerCase Q ic)"
  shows "\<exists>s \<in> set (DictionaryProvider_getSuggestions enabled (addWord blacklist W wordMap)
                     (ctx \<lparr> query := Q \<rparr>) st).
           displayName s = (if wordInsertionMode st = APPEND then Q @ drop (length Q) W else W) \<and>
           (startsWith W Q \<longrightarrow> displayName s = W)"
proof -
  define q where "q = maybeLowerCase Q ic"
  have qne: "q \<noteq> []" using ne by (simp add: q_def maybeLowerCase_def toLowerCase_def)
  from startsWith_first [OF m [folded q_def] qne]
  have fne: "maybeLowerCase W ic \<noteq> []" and hd: "hd (maybeLowerCase W ic) = hd q" by simp_all
  then have wne: "W \<noteq> []"
    by (cases W) (auto simp: maybeLowerCase_def toLowerCase_def split: if_splits)
  have key: "charAt W 0 = charAt q 0 \<or> (ic \<and> charAt W 0 = toUpperCase (charAt q 0))"
  proof (cases ic)
    case True
    then have "hd q = lowerChar (hd W)"
      using hd wne by (simp add: maybeLowerCase_def toLowerCase_def hd_map)
    then show ?thesis
      using True lowerChar_cases [of "hd W"] wne qne
      by (auto simp: charAt_first toUpperCase_def)
  next
    case False
    then show ?thesis using hd wne qne by (simp add: charAt_first maybeLowerCase_def)
  qed
  let ?ctx = "ctx \<lparr> query := Q \<rparr>"
  have b: "Map_get (addWord blacklist W wordMap) (charAt W 0)
        = Some (Set_add (orEmpty (Map_get wordMap (charAt W 0))) W)"
    using wne nb by (rule addWord_bucket)
  have "(if wordInsertionMode st = APPEND then fromString (query ?ctx @ drop (length (query ?ctx)) W)
          else fromString W)
         \<in> set (DictionaryProvider_getSuggestions enabled (addWord blacklist W wordMap) ?ctx st)"
    using en ne len b Set_add_member key m
    by (intro dict_member [where k = "charAt W 0"]) (simp_all add: ic_def q_def)
  moreover have "startsWith W Q \<Longrightarrow> Q @ drop (length Q) W = W"
    by (metis append_take_drop_id startsWith_def)
  ultimately show ?thesis
    by (intro bexI [where x = "if wordInsertionMode st = APPEND
          then fromString (Q @ drop (length Q) W) else fromString W"])
       (auto simp: fromString_def)
qed

text \<open>
  C4 as stated fails: with the default minimum length 2, the one-character prefix
  \<open>h\<close> of the inserted word \<open>hello\<close> yields no suggestion.
\<close>

theorem short_query_no_round_trip:
  "addWord [] ''hello'' [] = [(''h'', [''hello''])] \<and>
   DictionaryProvider_getSuggestions enableFileScannerProvider (addWord [] ''hello'' [])
     (exampleContext \<lparr> query := ''h'' \<rparr>) DEFAULT_SETTINGS = []"
  by (simp add: DictionaryProvider_getSuggestions_def DEFAULT_SETTINGS_def addWord_def hasText_def
      charAt_def Map_has_def Map_get_def Set_add_def)

theorem dictionary_round_trip_witness:
  "isAscii ''Hello'' \<and> isAscii ''heL'' \<and> \<not> hasText [''his''] ''Hello'' \<and>
   enableFileScannerProvider DEFAULT_SETTINGS \<and> ''heL'' \<noteq> [] \<and>
   minWordTriggerLength DEFAULT_SETTINGS \<le> length ''heL'' \<and>
   startsWith (maybeLowerCase ''Hello'' (wordInsertionMode DEFAULT_SETTINGS \<noteq> MATCH_CASE_REPLACE))
     (maybeLowerCase ''heL'' (wordInsertionMode DEFAULT_SETTINGS \<noteq> MATCH_CASE_REPLACE)) \<and>
   (\<exists>s \<in> set (DictionaryProvider_getSuggestions enableFileScannerProvider
                 (addWord [''his''] ''Hello'' [(''h'', [''help''])])
                 (exampleContext \<lparr> query := ''heL'' \<rparr>) DEFAULT_SETTINGS).
      displayName s = ''Hello'')"
proof -
  have h1: "isAscii ''Hello''" and h2: "isAscii ''heL''"
    by (simp_all add: isAscii_def)
  have h3: "\<not> hasText [''his''] ''Hello''" by (simp add: hasText_def)
  have h4: "enableFileScannerProvider DEFAULT_SETTINGS" by (simp add: DEFAULT_SETTINGS_def)
  have h5: "''heL'' \<noteq> []" by simp
  have h6: "minWordTriggerLength DEFAULT_SETTINGS \<le> length ''heL''" by (simp add: DEFAULT_SETTINGS_def)
  have h7: "startsWith (maybeLowerCase ''Hello'' (wordInsertionMode DEFAULT_SETTINGS \<noteq> MATCH_CASE_REPLACE))
     (maybeLowerCase ''heL'' (wordInsertionMode DEFAULT_SETTINGS \<noteq> MATCH_CASE_REPLACE))"
    by code_simp
  have m: "wordInsertionMode DEFAULT_SETTINGS \<noteq> APPEND" by (simp add: DEFAULT_SETTINGS_def)
  show ?thesis
    using dictionary_round_trip [where enabled = enableFileScannerProvider and st = DEFAULT_SETTINGS
        and wordMap = "[(''h'', [''help''])]" and ctx = exampleContext,
        OF h1 h2 h3 h4 h5 h6 h7]
      h1 h2 h3 h4 h6 h7 m
    by auto
qed

text \<open>
  C5. With \<open>hello\<close> in the bucket \<open>h\<close> and the typed query \<open>Hel\<close>, the matcher returns a
  suggestion with replacement \<open>hello\<close> in the mode IGNORE_CASE_REPLACE and one with
  replacement \<open>Hello\<close> in the mode APPEND.
\<close>

theorem replace_vs_append:
  assumes "Map_get wordMap ''h'' = Some bucket" and "''hello'' \<in> set bucket"
    and "enabled st" and "minWordTriggerLength st \<le> 3" and "query ctx = ''Hel''"
  shows "(wordInsertionMode st = IGNORE_CASE_REPLACE \<longrightarrow>
           (\<exists>s \<in> set (DictionaryProvider_getSuggestions enabled wordMap ctx st).
              replacement s = ''hello'')) \<and>
         (wordInsertionMode st = APPEND \<longrightarrow>
           (\<exists>s \<in> set (DictionaryProvider_getSuggestions enabled wordMap ctx st).
              replacement s = ''Hello''))"
proof -
  have lower: "toLowerCase ''Hel'' = ''hel''" "toLowerCase ''hello'' = ''hello''"
    by code_simp+
  have mem: "wordInsertionMode st \<noteq> MATCH_CASE_REPLACE \<Longrightarrow>
     (if wordInsertionMode st = APPEND then fromString (query ctx @ drop (length (query ctx)) ''hello'')
          else fromString ''hello'')
         \<in> set (DictionaryProvider_getSuggestions enabled wordMap ctx st)"
    using assms lower
    by (intro dict_member [where k = "''h''" and ws = bucket])
       (simp_all add: maybeLowerCase_def startsWith_def charAt_def)
  show ?thesis
  proof (intro conjI impI)
    assume r: "wordInsertionMode st = IGNORE_CASE_REPLACE"
    then have "fromString ''hello'' \<in> set (DictionaryProvider_getSuggestions enabled wordMap ctx st)"
      using mem by simp
    then show "\<exists>s \<in> set (DictionaryProvider_getSuggestions enabled wordMap ctx st).
              replacement s = ''hello''"
      by (intro bexI [where x = "fromString ''hello''"]) (simp_all add: fromString_def)
  next
    assume r: "wordInsertionMode st = APPEND"
    then have "fromString ''Hello'' \<in> set (DictionaryProvider_getSuggestions enabled wordMap ctx st)"
      using mem assms(5) by simp
    then show "\<exists>s \<in> set (DictionaryProvider_getSuggestions enabled wordMap ctx st).
              replacement s = ''Hello''"
      by (intro bexI [where x = "fromString ''Hello''"]) (simp_all add: fromString_def)
  qed
qed

theorem replace_vs_append_witness:
  "Map_get (addWord [] ''hello'' []) ''h'' = Some [''hello''] \<and> ''hello'' \<in> set [''hello''] \<and>
   enableFileScannerProvider DEFAULT_SETTINGS \<and> minWordTriggerLength DEFAULT_SETTINGS \<le> 3 \<and>
   wordInsertionMode DEFAULT_SETTINGS = IGNORE_CASE_REPLACE \<and>
   (\<exists>s \<in> set (DictionaryProvider_getSuggestions enableFileScannerProvider
        (addWord [] ''hello'' []) (exampleContext \<lparr> query := ''Hel'' \<rparr>) DEFAULT_SETTINGS). replacement s = ''hello'') \<and>
   (\<exists>s \<in> set (DictionaryProvider_getSuggestions enableFileScannerProvider
        (addWord [] ''hello'' []) (exampleContext \<lparr> query := ''Hel'' \<rparr>) (DEFAULT_SETTINGS \<lparr> wordInsertionMode := APPEND \<rparr>)).
        replacement s = ''Hello'')"
proof -
  have h1: "Map_get (addWord [] ''hello'' []) ''h'' = Some [''hello'']"
    by (simp add: addWord_def hasText_def charAt_def Map_has_def Map_get_def Set_add_def)
  have h2: "''hello'' \<in> set [''hello'']" by simp
  have h3: "enableFileScannerProvider DEFAULT_SETTINGS"
    and h3': "enableFileScannerProvider (DEFAULT_SETTINGS \<lparr> wordInsertionMode := APPEND \<rparr>)"
    by (simp_all add: DEFAULT_SETTINGS_def)
  have h4: "minWordTriggerLength DEFAULT_SETTINGS \<le> 3"
    and h4': "minWordTriggerLength (DEFAULT_SETTINGS \<lparr> wordInsertionMode := APPEND \<rparr>) \<le> 3"
    by (simp_all add: DEFAULT_SETTINGS_def)
  have h5: "query (exampleContext \<lparr> query := ''Hel'' \<rparr>) = ''Hel''" by simp
  have m: "wordInsertionMode DEFAULT_SETTINGS = IGNORE_CASE_REPLACE"
    and m': "wordInsertionMode (DEFAULT_SETTINGS \<lparr> wordInsertionMode := APPEND \<rparr>) = APPEND"
    by (simp_all add: DEFAULT_SETTINGS_def)
  show ?thesis
    using replace_vs_append [where enabled = enableFileScannerProvider and st = DEFAULT_SETTINGS,
        OF h1 h2 h3 h4 h5]
      replace_vs_append [where enabled = enableFileScannerProvider
        and st = "DEFAULT_SETTINGS \<lparr> wordInsertionMode := APPEND \<rparr>", OF h1 h2 h3' h4' h5]
      h1 h3 h4 m m'
    by simp
qed

section \<open>Properties of the snippet placeholder manager\<close>

lemma dispatch_addMark:
  "dispatch ed \<lparr> changes = None, effects = [addMark deco] \<rparr> = ed \<lparr> marks := marks ed @ [deco] \<rparr>"
  by (simp add: dispatch_def applyChange_def markerStateField_update_def mapMarks_def)

lemma handleChars_no_tilde:
  assumes "\<forall>i \<in> set is. i < length lineText \<and> charAt lineText (int i) \<noteq> ''~''"
    and "line start + lineIndex < length (doc ed)"
  shows "\<exists>new. handleChars lineText lineIndex start colorIndex is (ed, mgr) =
           Some (ed \<lparr> marks := marks ed @ new \<rparr>,
                 mgr \<lparr> placeholders := rev (map mark_reference new) @ placeholders mgr,
                       nextReference := nextReference mgr + length new \<rparr>) \<and>
           length new = length (filter (\<lambda>i. charAt lineText (int i) = ''#'') is) \<and>
           list_all (marksHashOfLine (doc ed) start lineText lineIndex colorIndex) new \<and>
           map mark_reference new = [nextReference mgr ..< nextReference mgr + length new]"
  using assms
proof (induction "is" arbitrary: ed mgr)
  case Nil
  show ?case by (intro exI [of _ "[]"]) simp
next
  case (Cons i rest)
  have rest: "\<forall>i \<in> set rest. i < length lineText \<and> charAt lineText (int i) \<noteq> ''~''"
    using Cons.prems(1) by simp
  have i: "i < length lineText" "charAt lineText (int i) \<noteq> ''~''"
    using Cons.prems(1) by simp_all
  show ?case
  proof (cases "charAt lineText (int i) = ''#''")
    case False
    obtain new where n: "handleChars lineText lineIndex start colorIndex rest (ed, mgr) =
           Some (ed \<lparr> marks := marks ed @ new \<rparr>,
                 mgr \<lparr> placeholders := rev (map mark_reference new) @ placeholders mgr,
                       nextReference := nextReference mgr + length new \<rparr>)"
      "length new = length (filter (\<lambda>i. charAt lineText (int i) = ''#'') rest)"
      "list_all (marksHashOfLine (doc ed) start lineText lineIndex colorIndex) new"
      "map mark_reference new = [nextReference mgr ..< nextReference mgr + length new]"
      using Cons.IH [OF rest Cons.prems(2)] by blast
    show ?thesis
      using False i n by (intro exI [of _ new]) (simp add: Let_def)
  next
    case True
    obtain fr where fr: "indexFromPos (doc ed) (sentinelPos start lineIndex i) = Some fr"
      using Cons.prems(2) by (simp add: indexFromPos_def sentinelPos_def)
    define deco where "deco = \<lparr> mark_from = fr, mark_to = fr + 1, mark_class = colorIndex,
                                 mark_reference = nextReference mgr \<rparr>"
    define ed1 where "ed1 = ed \<lparr> marks := marks ed @ [deco] \<rparr>"
    define mgr1 where "mgr1 = mgr \<lparr> placeholders := nextReference mgr # placeholders mgr,
                                nextReference := Suc (nextReference mgr) \<rparr>"
    have step: "handleChars lineText lineIndex start colorIndex (i # rest) (ed, mgr) =
                handleChars lineText lineIndex start colorIndex rest (ed1, mgr1)"
      using True fr
      by (simp add: Let_def dispatch_addMark sentinelPos_def deco_def ed1_def mgr1_def)
    have d1: "doc ed1 = doc ed" by (simp add: ed1_def)
    have "line start + lineIndex < length (doc ed1)" using Cons.prems(2) d1 by simp
    from Cons.IH [OF rest this, of mgr1]
    obtain new where n: "handleChars lineText lineIndex start colorIndex rest (ed1, mgr1) =
           Some (ed1 \<lparr> marks := marks ed1 @ new \<rparr>,
                 mgr1 \<lparr> placeholders := rev (map mark_reference new) @ placeholders mgr1,
                       nextReference := nextReference mgr1 + length new \<rparr>)"
      "length new = length (filter (\<lambda>i. charAt lineText (int i) = ''#'') rest)"
      "list_all (marksHashOfLine (doc ed1) start lineText lineIndex colorIndex) new"
      "map mark_reference new = [nextReference mgr1 ..< nextReference mgr1 + length new]"
      by blast
    have dm: "marksHashOfLine (doc ed) start lineText lineIndex colorIndex deco"
      unfolding marksHashOfLine_def list_ex_iff
      using True fr i(1) by (auto simp: deco_def unitMark_def)
    have nr: "nextReference mgr1 = Suc (nextReference mgr)"
      by (simp add: mgr1_def)
    have u: "[nextReference mgr ..< nextReference mgr + length (deco # new)] =
          nextReference mgr # [Suc (nextReference mgr) ..< Suc (nextReference mgr) + length new]"
      using upt_conv_Cons [of "nextReference mgr" "nextReference mgr + Suc (length new)"]
      by (simp del: upt_Suc)
    have "mark_reference deco = nextReference mgr"
      by (simp add: deco_def)
    then have refs: "map mark_reference (deco # new) =
          [nextReference mgr ..< nextReference mgr + length (deco # new)]"
      unfolding u using n(4) [unfolded nr] by (simp del: upt_Suc)
    show ?thesis
    proof (intro exI [of _ "deco # new"] conjI)
      show "handleChars lineText lineIndex start colorIndex (i # rest) (ed, mgr) =
           Some (ed \<lparr> marks := marks ed @ deco # new \<rparr>,
                 mgr \<lparr> placeholders := rev (map mark_reference (deco # new)) @ placeholders mgr,
                       nextReference := nextReference mgr + length (deco # new) \<rparr>)"
        unfolding step n(1) by (simp add: ed1_def mgr1_def deco_def)
      show "length (deco # new) = length (filter (\<lambda>i. charAt lineText (int i) = ''#'') (i # rest))"
        using True n(2) by simp
      show "list_all (marksHashOfLine (doc ed) start lineText lineIndex colorIndex) (deco # new)"
        using dm n(3) d1 by simp
      show "map mark_reference (deco # new) =
          [nextReference mgr ..< nextReference mgr + length (deco # new)]"
        by (rule refs)
    qed
  qed
qed

lemma count_list_snoc: "count_list (xs @ [x]) c = count_list xs c + (if x = c then 1 else 0)"
  by (induction xs) auto

lemma count_indices: "length (filter (\<lambda>i. xs ! i = c) [0 ..< length xs]) = count_list xs c"
proof (induction xs rule: rev_induct)
  case Nil
  show ?case by simp
next
  case (snoc x xs)
  have "filter (\<lambda>i. (xs @ [x]) ! i = c) [0 ..< length xs] = filter (\<lambda>i. xs ! i = c) [0 ..< length xs]"
    by (rule filter_cong) (simp_all add: nth_append)
  then show ?case using snoc by (simp add: count_list_snoc)
qed

lemma count_hash_indices:
  "length (filter (\<lambda>i. charAt l (int i) = ''#'') (rev [0 ..< length l])) = count_list l (CHR ''#'')"
proof -
  have "filter (\<lambda>i. charAt l (int i) = ''#'') [0 ..< length l] =
        filter (\<lambda>i. l ! i = CHR ''#'') [0 ..< length l]"
    by (rule filter_cong) (simp_all add: charAt_def)
  then have "length (filter (\<lambda>i. charAt l (int i) = ''#'') [0 ..< length l]) = count_list l (CHR ''#'')"
    by (simp add: count_indices)
  then show ?thesis by (simp add: rev_filter [symmetric])
qed

lemma handleLines_no_tilde:
  assumes "\<forall>k \<in> set ks. k < length lines \<and> CHR ''~'' \<notin> set (lines ! k) \<and>
             line start + k < length (doc ed)"
  shows "\<exists>new. handleLines lines start colorIndex ks (ed, mgr) =
           Some (ed \<lparr> marks := marks ed @ new \<rparr>,
                 mgr \<lparr> placeholders := rev (map mark_reference new) @ placeholders mgr,
                       nextReference := nextReference mgr + length new \<rparr>) \<and>
           length new = sum_list (map (\<lambda>k. count_list (lines ! k) (CHR ''#'')) ks) \<and>
           list_all (marksHash (doc ed) start lines colorIndex) new \<and>
           map mark_reference new = [nextReference mgr ..< nextReference mgr + length new]"
  using assms
proof (induction ks arbitrary: ed mgr)
  case Nil
  show ?case by (intro exI [of _ "[]"]) simp
next
  case (Cons k ks)
  have k: "k < length lines" "CHR ''~'' \<notin> set (lines ! k)" "line start + k < length (doc ed)"
    using Cons.prems by simp_all
  have "\<And>i. i < length (lines ! k) \<Longrightarrow> lines ! k ! i \<noteq> CHR ''~''"
    using k(2) nth_mem by metis
  then have "\<forall>i \<in> set (rev [0 ..< length (lines ! k)]).
          i < length (lines ! k) \<and> charAt (lines ! k) (int i) \<noteq> ''~''"
    by (simp add: charAt_def)
  from handleChars_no_tilde [OF this k(3), of colorIndex mgr]
  obtain new1 where n1: "handleChars (lines ! k) k start colorIndex (rev [0 ..< length (lines ! k)]) (ed, mgr) =
           Some (ed \<lparr> marks := marks ed @ new1 \<rparr>,
                 mgr \<lparr> placeholders := rev (map mark_reference new1) @ placeholders mgr,
                       nextReference := nextReference mgr + length new1 \<rparr>)"
      "length new1 = length (filter (\<lambda>i. charAt (lines ! k) (int i) = ''#'') (rev [0 ..< length (lines ! k)]))"
      "list_all (marksHashOfLine (doc ed) start (lines ! k) k colorIndex) new1"
      "map mark_reference new1 = [nextReference mgr ..< nextReference mgr + length new1]"
    by blast
  define ed1 where "ed1 = ed \<lparr> marks := marks ed @ new1 \<rparr>"
  define mgr1 where "mgr1 = mgr \<lparr> placeholders := rev (map mark_reference new1) @ placeholders mgr,
                       nextReference := nextReference mgr + length new1 \<rparr>"
  have d1: "doc ed1 = doc ed" by (simp add: ed1_def)
  have "\<forall>k \<in> set ks. k < length lines \<and> CHR ''~'' \<notin> set (lines ! k) \<and>
             line start + k < length (doc ed1)"
    using Cons.prems d1 by simp
  from Cons.IH [OF this, of mgr1]
  obtain new2 where n2: "handleLines lines start colorIndex ks (ed1, mgr1) =
           Some (ed1 \<lparr> marks := marks ed1 @ new2 \<rparr>,
                 mgr1 \<lparr> placeholders := rev (map mark_reference new2) @ placeholders mgr1,
                       nextReference := nextReference mgr1 + length new2 \<rparr>)"
      "length new2 = sum_list (map (\<lambda>k. count_list (lines ! k) (CHR ''#'')) ks)"
      "list_all (marksHash (doc ed1) start lines colorIndex) new2"
      "map mark_reference new2 = [nextReference mgr1 ..< nextReference mgr1 + length new2]"
    by blast
  have nr: "nextReference mgr1 = nextReference mgr + length new1"
    by (simp add: mgr1_def)
  have h1: "list_all (marksHash (doc ed) start lines colorIndex) new1"
    using n1(3) k(1) by (auto simp: list_all_iff marksHash_def list_ex_iff)
  have refs: "map mark_reference (new1 @ new2) =
        [nextReference mgr ..< nextReference mgr + length (new1 @ new2)]"
  proof -
    have "[nextReference mgr ..< (nextReference mgr + length new1) + length new2] =
          [nextReference mgr ..< nextReference mgr + length new1] @
          [nextReference mgr + length new1 ..< (nextReference mgr + length new1) + length new2]"
      by (rule upt_add_eq_append) simp
    then show ?thesis
      using n1(4) n2(4) [unfolded nr] by (simp add: add.assoc del: upt_Suc)
  qed
  show ?case
  proof (intro exI [of _ "new1 @ new2"] conjI)
    show "handleLines lines start colorIndex (k # ks) (ed, mgr) =
           Some (ed \<lparr> marks := marks ed @ new1 @ new2 \<rparr>,
                 mgr \<lparr> placeholders := rev (map mark_reference (new1 @ new2)) @ placeholders mgr,
                       nextReference := nextReference mgr + length (new1 @ new2) \<rparr>)"
      using n1(1) n2(1) by (simp add: ed1_def mgr1_def)
    show "length (new1 @ new2) = sum_list (map (\<lambda>k. count_list (lines ! k) (CHR ''#'')) (k # ks))"
      using n1(2) n2(2) by (simp add: count_hash_indices)
    show "list_all (marksHash (doc ed) start lines colorIndex) (new1 @ new2)"
      using h1 n2(3) d1 by simp
    show "map mark_reference (new1 @ new2) =
        [nextReference mgr ..< nextReference mgr + length (new1 @ new2)]"
      by (rule refs)
  qed
qed

lemma splitLF_from_count:
  "c \<noteq> CHR 0x0A \<Longrightarrow>
   sum_list (map (\<lambda>l. count_list l c) (splitLF_from cur s)) = count_list cur c + count_list s c"
  by (induction s arbitrary: cur) (auto simp: count_list_snoc)

lemma splitLF_from_set:
  "\<forall>l \<in> set (splitLF_from cur s). set l \<subseteq> set cur \<union> set s"
proof (induction s arbitrary: cur)
  case Nil
  show ?case by simp
next
  case (Cons c s)
  show ?case
  proof (cases "c = CHR 0x0A")
    case True
    then show ?thesis using Cons [of "[]"] by auto
  next
    case False
    then show ?thesis using Cons [of "cur @ [c]"] by auto
  qed
qed

lemma sum_over_line_indices:
  fixes f :: "string \<Rightarrow> nat"
  shows "sum_list (map (\<lambda>k. f (ls ! k)) (rev [0 ..< length ls])) = sum_list (map f ls)"
proof -
  have "map (\<lambda>k. f (ls ! k)) [0 ..< length ls] = map f (map (\<lambda>k. ls ! k) [0 ..< length ls])"
    by simp
  also have "\<dots> = map f ls" by (simp only: map_nth)
  finally have e: "map (\<lambda>k. f (ls ! k)) [0 ..< length ls] = map f ls" .
  have "sum_list (map (\<lambda>k. f (ls ! k)) (rev [0 ..< length ls])) =
        sum_list (rev (map (\<lambda>k. f (ls ! k)) [0 ..< length ls]))"
    by (simp only: rev_map)
  also have "\<dots> = sum_list (map (\<lambda>k. f (ls ! k)) [0 ..< length ls])"
    by (rule sum_list_rev)
  finally show ?thesis by (simp only: e)
qed

lemma posFromIndex_indexFromPos:
  assumes "indexFromPos d pos = Some off"
  shows "posFromIndex d off \<noteq> None"
proof -
  have l: "line pos < length d" and
    o: "off = min (lineStart d (line pos) + ch pos) (lineStart d (line pos) + length (d ! line pos))"
    using assms by (auto simp: indexFromPos_def split: if_splits)
  have "lineStart d (line pos) \<le> off \<and> off \<le> lineStart d (line pos) + length (d ! line pos)"
    using o by simp
  then have "find (\<lambda>l. lineStart d l \<le> off \<and> off \<le> lineStart d l + length (d ! l))
             [0 ..< length d] \<noteq> None"
    using l by (auto simp: find_None_iff)
  then show ?thesis by (auto simp: posFromIndex_def)
qed

lemma selectMarker_frame:
  "selectMarker ed r = Some ed2 \<Longrightarrow> doc ed2 = doc ed \<and> marks ed2 = marks ed"
  by (auto simp: selectMarker_def split: option.splits)

lemma handleSnippet_marks:
  assumes "CHR ''~'' \<notin> set value"
    and "line start + length (splitLF value) \<le> length (doc ed)"
    and "handleSnippet value start random (ed, mgr) = Some (ed', mgr')"
  shows "\<exists>new. doc ed' = doc ed \<and> marks ed' = marks ed @ new \<and>
           length new = count_list value (CHR ''#'') \<and>
           list_all (marksHash (doc ed) start (splitLF value) (pickColorIndex ed mgr random)) new \<and>
           map mark_reference new = [nextReference mgr ..< nextReference mgr + length new] \<and>
           placeholders mgr' = rev (map mark_reference new) @ placeholders mgr"
proof -
  define ls where "ls = splitLF value"
  define colorIndex where "colorIndex = pickColorIndex ed mgr random"
  have nt: "\<forall>l \<in> set ls. CHR ''~'' \<notin> set l"
    using assms(1) splitLF_from_set [of "[]" "value"] by (auto simp: ls_def splitLF_def)
  have "\<forall>k \<in> set (rev [0 ..< length ls]). k < length ls \<and> CHR ''~'' \<notin> set (ls ! k) \<and>
             line start + k < length (doc ed)"
    using nt assms(2) by (auto simp: ls_def)
  from handleLines_no_tilde [OF this, of colorIndex mgr]
  obtain new where n: "handleLines ls start colorIndex (rev [0 ..< length ls]) (ed, mgr) =
           Some (ed \<lparr> marks := marks ed @ new \<rparr>,
                 mgr \<lparr> placeholders := rev (map mark_reference new) @ placeholders mgr,
                       nextReference := nextReference mgr + length new \<rparr>)"
      "length new = sum_list (map (\<lambda>k. count_list (ls ! k) (CHR ''#'')) (rev [0 ..< length ls]))"
      "list_all (marksHash (doc ed) start ls colorIndex) new"
      "map mark_reference new = [nextReference mgr ..< nextReference mgr + length new]"
    by blast
  have "sum_list (map (\<lambda>l. count_list l (CHR ''#'')) ls) = count_list value (CHR ''#'')"
    using splitLF_from_count [of "CHR ''#''" "[]" "value"] by (simp add: ls_def splitLF_def)
  then have cnt: "length new = count_list value (CHR ''#'')"
    using n(2) sum_over_line_indices [of "\<lambda>l. count_list l (CHR ''#'')" ls] by simp
  have "doc ed' = doc ed \<and> marks ed' = marks ed @ new \<and>
        placeholders mgr' = rev (map mark_reference new) @ placeholders mgr"
    using assms(3) n(1) selectMarker_frame
    by (auto simp: handleSnippet_def Let_def ls_def [symmetric] colorIndex_def [symmetric]
        split: if_splits option.splits)
  then show ?thesis
    using cnt n(3,4) by (auto simp: ls_def colorIndex_def)
qed

lemma docText_Cons: "docText (l # ls) = (if ls = [] then l else l @ [CHR 0x0A] @ docText ls)"
  by (cases ls) simp_all

lemma docText_nth:
  "L < length d \<Longrightarrow> c < length (d ! L) \<Longrightarrow>
   lineStart d L + c < length (docText d) \<and> docText d ! (lineStart d L + c) = d ! L ! c"
proof (induction d arbitrary: L)
  case Nil
  then show ?case by simp
next
  case (Cons l ls)
  show ?case
  proof (cases L)
    case 0
    then show ?thesis using Cons.prems by (auto simp: docText_Cons nth_append)
  next
    case (Suc n)
    then have n: "n < length ls" "c < length (ls ! n)" using Cons.prems by simp_all
    then have ne: "ls \<noteq> []" by auto
    from Cons.IH [OF n]
    have "lineStart ls n + c < length (docText ls)"
      and "docText ls ! (lineStart ls n + c) = ls ! n ! c" by simp_all
    then show ?thesis using Suc ne
      by (simp add: docText_Cons nth_append)
  qed
qed

lemma marksHash_covers_hash:
  assumes "snippetInDoc d start lines" and "marksHash d start lines colorIndex m"
  shows "mark_from m < length (docText d) \<and> docText d ! mark_from m = CHR ''#''"
proof -
  from assms(2) obtain k i where k: "k < length lines" and i: "i < length (lines ! k)"
    and h: "charAt (lines ! k) (int i) = ''#''"
    and ix: "indexFromPos d (sentinelPos start k i) = Some (mark_from m)"
    by (auto simp: marksHash_def marksHashOfLine_def list_ex_iff)
  define base where "base = (if k = 0 then ch start else 0)"
  have L: "line start + k < length d"
    and t: "take (length (lines ! k)) (drop base (d ! (line start + k))) = lines ! k"
    using assms(1) k by (auto simp: snippetInDoc_def list_all_iff base_def)
  have "length (take (length (lines ! k)) (drop base (d ! (line start + k)))) = length (lines ! k)"
    by (simp only: t)
  then have len: "base + i < length (d ! (line start + k))" using i by simp
  have "(take (length (lines ! k)) (drop base (d ! (line start + k)))) ! i = lines ! k ! i"
    by (simp only: t)
  then have c: "d ! (line start + k) ! (base + i) = lines ! k ! i"
    using i len by simp
  have hc: "lines ! k ! i = CHR ''#''" using h i by (simp add: charAt_def)
  have "mark_from m = lineStart d (line start + k) + (base + i)"
    using ix L len by (simp add: indexFromPos_def sentinelPos_def base_def min_def)
  then show ?thesis using docText_nth [OF L len] c hc by simp
qed

lemma handleSnippet_returns:
  assumes "CHR ''~'' \<notin> set value"
    and "line start + length (splitLF value) \<le> length (doc ed)"
    and "\<forall>m \<in> set (marks ed). mark_reference m < nextReference mgr"
    and "CHR ''#'' \<in> set value"
  shows "\<exists>r. handleSnippet value start random (ed, mgr) = Some r"
proof -
  define ls where "ls = splitLF value"
  define colorIndex where "colorIndex = pickColorIndex ed mgr random"
  have nt: "\<forall>l \<in> set ls. CHR ''~'' \<notin> set l"
    using assms(1) splitLF_from_set [of "[]" "value"] by (auto simp: ls_def splitLF_def)
  have "\<forall>k \<in> set (rev [0 ..< length ls]). k < length ls \<and> CHR ''~'' \<notin> set (ls ! k) \<and>
             line start + k < length (doc ed)"
    using nt assms(2) by (auto simp: ls_def)
  from handleLines_no_tilde [OF this, of colorIndex mgr]
  obtain new where n: "handleLines ls start colorIndex (rev [0 ..< length ls]) (ed, mgr) =
           Some (ed \<lparr> marks := marks ed @ new \<rparr>,
                 mgr \<lparr> placeholders := rev (map mark_reference new) @ placeholders mgr,
                       nextReference := nextReference mgr + length new \<rparr>)"
      "length new = sum_list (map (\<lambda>k. count_list (ls ! k) (CHR ''#'')) (rev [0 ..< length ls]))"
      "list_all (marksHash (doc ed) start ls colorIndex) new"
      "map mark_reference new = [nextReference mgr ..< nextReference mgr + length new]"
    by blast
  have "sum_list (map (\<lambda>l. count_list l (CHR ''#'')) ls) = count_list value (CHR ''#'')"
    using splitLF_from_count [of "CHR ''#''" "[]" "value"] by (simp add: ls_def splitLF_def)
  then have cnt: "length new = count_list value (CHR ''#'')"
    using n(2) sum_over_line_indices [of "\<lambda>l. count_list l (CHR ''#'')" ls] by simp
  have "count_list value (CHR ''#'') \<noteq> 0"
    using assms(4) by (simp add: count_list_0_iff)
  then have ne: "new \<noteq> []" using cnt by auto
  define ed1 where "ed1 = ed \<lparr> marks := marks ed @ new \<rparr>"
  define r where "r = mark_reference (last new)"
  have hd: "hd (rev (map mark_reference new) @ placeholders mgr) = r"
    using ne by (simp add: r_def hd_rev last_map)
  have "last new \<in> set (marks ed1)" using ne by (simp add: ed1_def)
  then have "find (\<lambda>m. mark_reference m = r) (marks ed1) \<noteq> None"
    by (auto simp: find_None_iff r_def)
  then obtain m where m: "marker ed1 r = Some m" by (auto simp: marker_def)
  then have mm: "m \<in> set (marks ed1)" "mark_reference m = r"
    by (auto simp: marker_def find_Some_iff)
  have "r \<in> set (map mark_reference new)" using ne by (simp add: r_def)
  then have "nextReference mgr \<le> r" unfolding n(4) by simp
  then have "m \<notin> set (marks ed)" using assms(3) mm(2) by auto
  then have "m \<in> set new" using mm(1) by (simp add: ed1_def)
  then have "marksHash (doc ed) start ls colorIndex m"
    using n(3) by (simp add: list_all_iff)
  then obtain pos where "indexFromPos (doc ed) pos = Some (mark_from m)"
    by (auto simp: marksHash_def marksHashOfLine_def list_ex_iff)
  then have "posFromIndex (doc ed1) (mark_from m) \<noteq> None"
    using posFromIndex_indexFromPos by (simp add: ed1_def)
  then have "selectMarker ed1 r \<noteq> None"
    using m by (auto simp: selectMarker_def)
  then show ?thesis
    using n(1) hd ne
    by (auto simp: handleSnippet_def Let_def ls_def [symmetric] colorIndex_def [symmetric]
        ed1_def [symmetric])
qed

lemma handleSnippet_hash_only:
  assumes "CHR ''~'' \<notin> set value"
    and "CHR ''#'' \<in> set value"
    and "line start + length (splitLF value) \<le> length (doc ed)"
    and "\<forall>m \<in> set (marks ed). mark_reference m < nextReference mgr"
  shows "\<exists>ed' mgr' new.
           handleSnippet value start random (ed, mgr) = Some (ed', mgr') \<and>
           doc ed' = doc ed \<and>
           marks ed' = marks ed @ new \<and>
           length new = count_list value (CHR ''#'') \<and>
           list_all (marksHash (doc ed) start (splitLF value) (pickColorIndex ed mgr random)) new \<and>
           placeholders mgr' = rev (map mark_reference new) @ placeholders mgr \<and>
           (snippetInDoc (doc ed) start (splitLF value) \<longrightarrow>
              list_all (\<lambda>m. mark_to m = mark_from m + 1 \<and>
                             mark_from m < length (docText (doc ed')) \<and>
                             docText (doc ed') ! mark_from m = CHR ''#'') new)"
proof -
  obtain r where "handleSnippet value start random (ed, mgr) = Some r"
    using handleSnippet_returns [OF assms(1,3,4,2)] by blast
  then obtain ed' mgr' where r: "handleSnippet value start random (ed, mgr) = Some (ed', mgr')"
    by (cases r) auto
  from handleSnippet_marks [OF assms(1,3) r]
  obtain new where n: "doc ed' = doc ed" "marks ed' = marks ed @ new"
      "length new = count_list value (CHR ''#'')"
      "list_all (marksHash (doc ed) start (splitLF value) (pickColorIndex ed mgr random)) new"
      "placeholders mgr' = rev (map mark_reference new) @ placeholders mgr"
    by blast
  have "snippetInDoc (doc ed) start (splitLF value) \<Longrightarrow>
        list_all (\<lambda>m. mark_to m = mark_from m + 1 \<and>
                       mark_from m < length (docText (doc ed')) \<and>
                       docText (doc ed') ! mark_from m = CHR ''#'') new"
    using n(4) marksHash_covers_hash [of "doc ed" start "splitLF value"]
    unfolding n(1) list_all_iff
    by (auto simp: marksHash_def marksHashOfLine_def unitMark_def list_ex_iff)
  then show ?thesis using r n by blast
qed

text \<open>
  C3 (amended). For each \<open>#\<close> encountered, \<open>handleSnippet\<close> does not delete the character:
  it registers a marker of length 1 at the offset of the sentinel's position, puts its
  reference in front of the placeholder list and goes on with the document as it is.
  Hence, for a snippet whose sentinels are all \<open>#\<close>, inserted where its lines fit the
  document, the call returns, leaves the document unchanged and registers one such
  marker for each \<open>#\<close>; when the document holds the snippet at the insertion position,
  every marker covers a \<open>#\<close> that is still in the document.
\<close>

theorem hash_sentinel_marked_not_deleted:
  "(\<forall>lineText lineIndex start colorIndex i rest ed mgr fr.
      charAt lineText (int i) = ''#'' \<and>
      indexFromPos (doc ed) (sentinelPos start lineIndex i) = Some fr \<longrightarrow>
      handleChars lineText lineIndex start colorIndex (i # rest) (ed, mgr) =
      handleChars lineText lineIndex start colorIndex rest
        (ed \<lparr> marks := marks ed @ [\<lparr> mark_from = fr, mark_to = fr + 1, mark_class = colorIndex,
                                      mark_reference = nextReference mgr \<rparr>] \<rparr>,
         mgr \<lparr> placeholders := nextReference mgr # placeholders mgr,
               nextReference := Suc (nextReference mgr) \<rparr>)) \<and>
   (\<forall>value start random ed mgr.
      CHR ''~'' \<notin> set value \<and> CHR ''#'' \<in> set value \<and>
      line start + length (splitLF value) \<le> length (doc ed) \<and>
      list_all (\<lambda>m. mark_reference m < nextReference mgr) (marks ed) \<longrightarrow>
      (\<exists>ed' mgr' new.
           handleSnippet value start random (ed, mgr) = Some (ed', mgr') \<and>
           doc ed' = doc ed \<and>
           marks ed' = marks ed @ new \<and>
           length new = count_list value (CHR ''#'') \<and>
           list_all (marksHash (doc ed) start (splitLF value) (pickColorIndex ed mgr random)) new \<and>
           placeholders mgr' = rev (map mark_reference new) @ placeholders mgr \<and>
           (snippetInDoc (doc ed) start (splitLF value) \<longrightarrow>
              list_all (\<lambda>m. mark_to m = mark_from m + 1 \<and>
                             mark_from m < length (docText (doc ed')) \<and>
                             docText (doc ed') ! mark_from m = CHR ''#'') new)))"
proof (intro conjI allI impI)
  fix lineText lineIndex colorIndex i rest fr and start :: EditorPosition
    and ed :: Editor and mgr :: SnippetManager
  assume "charAt lineText (int i) = ''#'' \<and>
      indexFromPos (doc ed) (sentinelPos start lineIndex i) = Some fr"
  then show "handleChars lineText lineIndex start colorIndex (i # rest) (ed, mgr) =
      handleChars lineText lineIndex start colorIndex rest
        (ed \<lparr> marks := marks ed @ [\<lparr> mark_from = fr, mark_to = fr + 1, mark_class = colorIndex,
                                      mark_reference = nextReference mgr \<rparr>] \<rparr>,
         mgr \<lparr> placeholders := nextReference mgr # placeholders mgr,
               nextReference := Suc (nextReference mgr) \<rparr>)"
    by (simp add: Let_def dispatch_addMark sentinelPos_def)
next
  fix "value" :: string and start :: EditorPosition and random :: nat
    and ed :: Editor and mgr :: SnippetManager
  assume a: "CHR ''~'' \<notin> set value \<and> CHR ''#'' \<in> set value \<and>
      line start + length (splitLF value) \<le> length (doc ed) \<and>
      list_all (\<lambda>m. mark_reference m < nextReference mgr) (marks ed)"
  then have "\<forall>m \<in> set (marks ed). mark_reference m < nextReference mgr"
    by (simp add: list_all_iff)
  then show "\<exists>ed' mgr' new.
           handleSnippet value start random (ed, mgr) = Some (ed', mgr') \<and>
           doc ed' = doc ed \<and>
           marks ed' = marks ed @ new \<and>
           length new = count_list value (CHR ''#'') \<and>
           list_all (marksHash (doc ed) start (splitLF value) (pickColorIndex ed mgr random)) new \<and>
           placeholders mgr' = rev (map mark_reference new) @ placeholders mgr \<and>
           (snippetInDoc (doc ed) start (splitLF value) \<longrightarrow>
              list_all (\<lambda>m. mark_to m = mark_from m + 1 \<and>
                             mark_from m < length (docText (doc ed')) \<and>
                             docText (doc ed') ! mark_from m = CHR ''#'') new)"
    using a by (intro handleSnippet_hash_only) simp_all
qed

theorem hash_sentinel_marked_not_deleted_witness:
  "CHR ''~'' \<notin> set ''foo#bar#baz'' \<and> CHR ''#'' \<in> set ''foo#bar#baz'' \<and>
   line \<lparr> line = 0, ch = 2 \<rparr> + length (splitLF ''foo#bar#baz'') \<le> length (doc (editorWith [''x foo#bar#baz y''])) \<and>
   marks (editorWith [''x foo#bar#baz y'']) = [] \<and>
   snippetInDoc (doc (editorWith [''x foo#bar#baz y''])) \<lparr> line = 0, ch = 2 \<rparr> (splitLF ''foo#bar#baz'') \<and>
   handleSnippet ''foo#bar#baz'' \<lparr> line = 0, ch = 2 \<rparr> 0 (editorWith [''x foo#bar#baz y''], emptyManager) =
     Some (\<lparr> doc = [''x foo#bar#baz y''],
              marks = [\<lparr> mark_from = 9, mark_to = 10, mark_class = 0, mark_reference = 0 \<rparr>,
                       \<lparr> mark_from = 5, mark_to = 6, mark_class = 0, mark_reference = 1 \<rparr>],
              selection = Some (\<lparr> line = 0, ch = 5 \<rparr>, \<lparr> line = 0, ch = 6 \<rparr>) \<rparr>,
           \<lparr> placeholders = [1, 0], nextReference = 2 \<rparr>)"
proof -
  have h1: "CHR ''~'' \<notin> set ''foo#bar#baz''" by simp
  have h2: "CHR ''#'' \<in> set ''foo#bar#baz''" by simp
  have h3: "line \<lparr> line = 0, ch = 2 \<rparr> + length (splitLF ''foo#bar#baz'')
              \<le> length (doc (editorWith [''x foo#bar#baz y'']))"
    by (simp add: splitLF_def editorWith_def)
  have h4: "\<forall>m \<in> set (marks (editorWith [''x foo#bar#baz y''])). mark_reference m < nextReference emptyManager"
    by (simp add: editorWith_def)
  have h5: "snippetInDoc (doc (editorWith [''x foo#bar#baz y''])) \<lparr> line = 0, ch = 2 \<rparr> (splitLF ''foo#bar#baz'')"
    by (simp add: snippetInDoc_def splitLF_def editorWith_def)
  have run: "handleSnippet ''foo#bar#baz'' \<lparr> line = 0, ch = 2 \<rparr> 0 (editorWith [''x foo#bar#baz y''], emptyManager) =
     Some (\<lparr> doc = [''x foo#bar#baz y''],
              marks = [\<lparr> mark_from = 9, mark_to = 10, mark_class = 0, mark_reference = 0 \<rparr>,
                       \<lparr> mark_from = 5, mark_to = 6, mark_class = 0, mark_reference = 1 \<rparr>],
              selection = Some (\<lparr> line = 0, ch = 5 \<rparr>, \<lparr> line = 0, ch = 6 \<rparr>) \<rparr>,
           \<lparr> placeholders = [1, 0], nextReference = 2 \<rparr>)"
    by code_simp
  have h4': "list_all (\<lambda>m. mark_reference m < nextReference emptyManager)
      (marks (editorWith [''x foo#bar#baz y'']))"
    by (simp add: editorWith_def)
  note main = hash_sentinel_marked_not_deleted
  from main h1 h2 h3 h4'
  have "\<exists>ed' mgr'. handleSnippet ''foo#bar#baz'' \<lparr> line = 0, ch = 2 \<rparr> 0
          (editorWith [''x foo#bar#baz y''], emptyManager) = Some (ed', mgr') \<and>
          doc ed' = doc (editorWith [''x foo#bar#baz y''])"
    by blast
  moreover have "marks (editorWith [''x foo#bar#baz y'']) = []"
    by (simp add: editorWith_def)
  ultimately show ?thesis using h1 h2 h3 h5 run by blast
qed

text \<open>
  C3 as stated fails: after the snippet \<open>#\<close> is handled the document still reads \<open>#\<close>,
  and the marker covers that character.
\<close>

theorem hash_sentinel_not_deleted_counterexample:
  "handleSnippet ''#'' \<lparr> line = 0, ch = 0 \<rparr> 0 (editorWith [''#''], emptyManager) =
     Some (\<lparr> doc = [''#''],
              marks = [\<lparr> mark_from = 0, mark_to = 1, mark_class = 0, mark_reference = 0 \<rparr>],
              selection = Some (\<lparr> line = 0, ch = 0 \<rparr>, \<lparr> line = 0, ch = 1 \<rparr>) \<rparr>,
           \<lparr> placeholders = [0], nextReference = 1 \<rparr>) \<and>
   docText [''#''] ! 0 = CHR ''#''"
  by code_simp

lemma mapMark_elsewhere:
  assumes "unitMark m" and "editElsewhere c m" and "change_from c \<le> change_to c"
  shows "\<exists>m'. mapMark c m = Some m' \<and> unitMark m' \<and> mark_reference m' = mark_reference m"
proof (cases "change_to c < mark_from m")
  case True
  have ne: "mark_from m \<noteq> mark_to m" and t: "mark_to m = mark_from m + 1"
    using assms(1) by (simp_all add: unitMark_def)
  have f: "mapPos c (mark_from m) (-1) Simple =
        Some (change_from c + length (change_insert c) + (mark_from m - change_to c))"
    using True assms(3) by (simp add: mapPos_def Let_def)
  have g: "mapPos c (mark_to m) 1 Simple =
        Some (change_from c + length (change_insert c) + (mark_from m - change_to c) + 1)"
    using True assms(3) t by (simp add: mapPos_def Let_def)
  show ?thesis
    using ne f g by (simp add: mapMark_def unitMark_def)
next
  case False
  then have a: "mark_to m < change_from c" using assms(2) by (simp add: editElsewhere_def)
  have ne: "mark_from m \<noteq> mark_to m" and t: "mark_to m = mark_from m + 1"
    using assms(1) by (simp_all add: unitMark_def)
  have f: "mapPos c (mark_from m) (-1) Simple = Some (mark_from m)"
    using a t by (simp add: mapPos_def Let_def)
  have g: "mapPos c (mark_to m) 1 Simple = Some (mark_to m)"
    using a by (simp add: mapPos_def Let_def)
  show ?thesis
    using ne f g t by (simp add: mapMark_def unitMark_def)
qed

lemma mapMarks_elsewhere:
  assumes "change_from c \<le> change_to c"
  shows "list_all unitMark value \<Longrightarrow> list_all (editElsewhere c) value \<Longrightarrow>
         list_all unitMark (mapMarks (Some c) value) \<and>
         map mark_reference (mapMarks (Some c) value) = map mark_reference value"
proof (induction "value")
  case Nil
  show ?case by (simp add: mapMarks_def map_filter_simps)
next
  case (Cons m ms)
  then have m: "unitMark m" "editElsewhere c m" by simp_all
  obtain m' where m': "mapMark c m = Some m'" "unitMark m'" "mark_reference m' = mark_reference m"
    using mapMark_elsewhere [OF m assms] by blast
  have "list_all unitMark (mapMarks (Some c) ms) \<and>
         map mark_reference (mapMarks (Some c) ms) = map mark_reference ms"
    using Cons by simp
  then show ?case using m' by (simp add: mapMarks_def map_filter_simps)
qed

lemma applyEffect_unit:
  "list_all unitMark value \<Longrightarrow> addsUnitMark e \<Longrightarrow> list_all unitMark (applyEffect value e)"
  by (cases e) (simp_all add: addsUnitMark_def list_all_iff)

lemma foldl_applyEffect_unit:
  "list_all unitMark value \<Longrightarrow> list_all addsUnitMark es \<Longrightarrow>
   list_all unitMark (foldl applyEffect value es)"
  by (induction es arbitrary: "value") (simp_all add: applyEffect_unit)

text \<open>
  C9 (amended). When every tracked marker has length 1, a transaction whose change lies
  strictly before or strictly behind each marker and whose effects add only markers of
  length 1 leaves every tracked marker with length 1, and the reprojection removes no
  marker; and \<open>handleSnippet\<close>, on a snippet without \<open>~\<close>, keeps the markers of length 1
  and registers its own with length 1.
\<close>

theorem marker_length_kept_by_edits_elsewhere:
  "(\<forall>value tr.
      list_all unitMark value \<and>
      (case changes tr of
         None \<Rightarrow> True
       | Some c \<Rightarrow> change_from c \<le> change_to c \<and> list_all (editElsewhere c) value) \<and>
      list_all addsUnitMark (effects tr) \<longrightarrow>
      list_all unitMark (markerStateField_update value tr) \<and>
      map mark_reference (mapMarks (changes tr) value) = map mark_reference value) \<and>
   (\<forall>value start random ed mgr ed' mgr'.
      CHR ''~'' \<notin> set value \<and>
      line start + length (splitLF value) \<le> length (doc ed) \<and>
      list_all unitMark (marks ed) \<and>
      handleSnippet value start random (ed, mgr) = Some (ed', mgr') \<longrightarrow>
      list_all unitMark (marks ed'))"
proof (intro conjI allI impI)
  fix "value" :: "Mark list" and tr :: Transaction
  assume a: "list_all unitMark value \<and>
      (case changes tr of
         None \<Rightarrow> True
       | Some c \<Rightarrow> change_from c \<le> change_to c \<and> list_all (editElsewhere c) value) \<and>
      list_all addsUnitMark (effects tr)"
  have m: "list_all unitMark (mapMarks (changes tr) value) \<and>
      map mark_reference (mapMarks (changes tr) value) = map mark_reference value"
  proof (cases "changes tr")
    case None
    then show ?thesis using a by (simp add: mapMarks_def)
  next
    case (Some c)
    then show ?thesis using a mapMarks_elsewhere [of c "value"] by simp
  qed
  then show "list_all unitMark (markerStateField_update value tr)"
    using a by (simp add: markerStateField_update_def foldl_applyEffect_unit)
  show "map mark_reference (mapMarks (changes tr) value) = map mark_reference value"
    using m by simp
next
  fix "value" :: string and start random ed mgr ed' mgr'
  assume a: "CHR ''~'' \<notin> set value \<and>
      line start + length (splitLF value) \<le> length (doc ed) \<and>
      list_all unitMark (marks ed) \<and>
      handleSnippet value start random (ed, mgr) = Some (ed', mgr')"
  then obtain new where "marks ed' = marks ed @ new"
    "list_all (marksHash (doc ed) start (splitLF value) (pickColorIndex ed mgr random)) new"
    using handleSnippet_marks [of "value" start ed random mgr ed' mgr'] by blast
  then show "list_all unitMark (marks ed')"
    using a by (auto simp: list_all_iff marksHash_def marksHashOfLine_def list_ex_iff)
qed

text \<open>
  C9 as stated fails: a character typed right behind the marked \<open>#\<close> becomes part of the
  inclusive mark, whose range then has length 2 while the placeholder is live.
\<close>

theorem marker_grows_when_typing_at_its_end:
  "handleSnippet ''#'' \<lparr> line = 0, ch = 0 \<rparr> 0 (editorWith [''#''], emptyManager) =
     Some (\<lparr> doc = [''#''],
              marks = [\<lparr> mark_from = 0, mark_to = 1, mark_class = 0, mark_reference = 0 \<rparr>],
              selection = Some (\<lparr> line = 0, ch = 0 \<rparr>, \<lparr> line = 0, ch = 1 \<rparr>) \<rparr>,
           \<lparr> placeholders = [0], nextReference = 1 \<rparr>) \<and>
   dispatch \<lparr> doc = [''#''],
              marks = [\<lparr> mark_from = 0, mark_to = 1, mark_class = 0, mark_reference = 0 \<rparr>],
              selection = Some (\<lparr> line = 0, ch = 0 \<rparr>, \<lparr> line = 0, ch = 1 \<rparr>) \<rparr>
     \<lparr> changes = Some \<lparr> change_from = 1, change_to = 1, change_insert = ''x'' \<rparr>, effects = [] \<rparr> =
     \<lparr> doc = [''#x''],
        marks = [\<lparr> mark_from = 0, mark_to = 2, mark_class = 0, mark_reference = 0 \<rparr>],
        selection = Some (\<lparr> line = 0, ch = 0 \<rparr>, \<lparr> line = 0, ch = 1 \<rparr>) \<rparr>"
  by code_simp

theorem marker_length_kept_by_edits_elsewhere_witness:
  "list_all unitMark [\<lparr> mark_from = 5, mark_to = 6, mark_class = 0, mark_reference = 1 \<rparr>] \<and>
   (0::nat) \<le> 2 \<and>
   list_all (editElsewhere \<lparr> change_from = 0, change_to = 2, change_insert = ''abc'' \<rparr>)
     [\<lparr> mark_from = 5, mark_to = 6, mark_class = 0, mark_reference = 1 \<rparr>] \<and>
   markerStateField_update [\<lparr> mark_from = 5, mark_to = 6, mark_class = 0, mark_reference = 1 \<rparr>]
     \<lparr> changes = Some \<lparr> change_from = 0, change_to = 2, change_insert = ''abc'' \<rparr>,
        effects = [addMark \<lparr> mark_from = 0, mark_to = 1, mark_class = 1, mark_reference = 2 \<rparr>] \<rparr>
     = [\<lparr> mark_from = 6, mark_to = 7, mark_class = 0, mark_reference = 1 \<rparr>,
        \<lparr> mark_from = 0, mark_to = 1, mark_class = 1, mark_reference = 2 \<rparr>] \<and>
   list_all unitMark (markerStateField_update
     [\<lparr> mark_from = 5, mark_to = 6, mark_class = 0, mark_reference = 1 \<rparr>]
     \<lparr> changes = Some \<lparr> change_from = 0, change_to = 2, change_insert = ''abc'' \<rparr>,
        effects = [addMark \<lparr> mark_from = 0, mark_to = 1, mark_class = 1, mark_reference = 2 \<rparr>] \<rparr>) \<and>
   CHR ''~'' \<notin> set ''a#'' \<and>
   line \<lparr> line = 0, ch = 0 \<rparr> + length (splitLF ''a#'') \<le> length (doc (editorWith [''a#''])) \<and>
   list_all unitMark (marks (editorWith [''a#''])) \<and>
   list_all unitMark (marks (fst (the (handleSnippet ''a#'' \<lparr> line = 0, ch = 0 \<rparr> 0 (editorWith [''a#''], emptyManager)))))"
proof -
  let ?v = "[\<lparr> mark_from = 5, mark_to = 6, mark_class = 0, mark_reference = 1 \<rparr>]"
  let ?tr = "\<lparr> changes = Some \<lparr> change_from = 0, change_to = 2, change_insert = ''abc'' \<rparr>,
        effects = [addMark \<lparr> mark_from = 0, mark_to = 1, mark_class = 1, mark_reference = 2 \<rparr>] \<rparr>"
  have h1: "list_all unitMark ?v" by (simp add: unitMark_def)
  have h2: "list_all (editElsewhere \<lparr> change_from = 0, change_to = 2, change_insert = ''abc'' \<rparr>) ?v"
    by (simp add: editElsewhere_def)
  have h3: "list_all addsUnitMark (effects ?tr)" by (simp add: addsUnitMark_def unitMark_def)
  have run: "markerStateField_update ?v ?tr
     = [\<lparr> mark_from = 6, mark_to = 7, mark_class = 0, mark_reference = 1 \<rparr>,
        \<lparr> mark_from = 0, mark_to = 1, mark_class = 1, mark_reference = 2 \<rparr>]"
    by code_simp
  have g1: "CHR ''~'' \<notin> set ''a#''" by simp
  have g2: "line \<lparr> line = 0, ch = 0 \<rparr> + length (splitLF ''a#'') \<le> length (doc (editorWith [''a#'']))"
    by (simp add: splitLF_def editorWith_def)
  have g3: "list_all unitMark (marks (editorWith [''a#'']))" by (simp add: editorWith_def)
  have g4: "handleSnippet ''a#'' \<lparr> line = 0, ch = 0 \<rparr> 0 (editorWith [''a#''], emptyManager) =
     Some (\<lparr> doc = [''a#''],
              marks = [\<lparr> mark_from = 1, mark_to = 2, mark_class = 0, mark_reference = 0 \<rparr>],
              selection = Some (\<lparr> line = 0, ch = 1 \<rparr>, \<lparr> line = 0, ch = 2 \<rparr>) \<rparr>,
           \<lparr> placeholders = [0], nextReference = 1 \<rparr>)"
    by code_simp
  note main = marker_length_kept_by_edits_elsewhere
  from main have "list_all unitMark (markerStateField_update ?v ?tr)"
    using h1 h2 h3 by (elim conjE allE [of _ ?v] allE [of _ ?tr]) simp
  moreover from main g1 g2 g3 g4
  have "list_all unitMark (marks (fst (the (handleSnippet ''a#'' \<lparr> line = 0, ch = 0 \<rparr> 0 (editorWith [''a#''], emptyManager)))))"
    by (simp add: unitMark_def)
  ultimately show ?thesis using h1 h2 run g1 g2 g3 by simp
qed

end
